theory Spec2Isabelle
  imports Main "HOL-Library.Word" "HOL-Library.Multiset"
begin

section \<open>Data model\<close>

text \<open>
  The source is a C++ template library: \<open>PtrDetails<T>\<close> (one entry of the garbage
  collection list) and \<open>Pointer<T, size>\<close> (the reference-counted pointer). The element
  type \<open>T\<close> plays no part in the bookkeeping, so an address \<open>T *\<close> is a natural number
  with \<open>NULL\<close> as 0. The template parameter \<open>int size\<close> is passed to every operation as
  a 32-bit word \<open>sz\<close> (its bit pattern); where the source compares it as an \<open>int\<close> the
  model uses the signed order, where it has been converted to \<open>unsigned\<close> the unsigned one.
  \<open>unsigned refCount\<close> is a 32-bit word, so \<open>++\<close> and \<open>--\<close> wrap around.
\<close>

type_synonym ptr = nat

abbreviation (input) NULL :: ptr where
  "NULL \<equiv> 0"

type_synonym unsigned = "32 word"

record PtrDetails =
  refCount :: unsigned
  memPtr :: ptr
  isArray :: bool
  arraySize :: unsigned

text \<open>\<open>PtrDetails(T *ptr, unsigned size = 0)\<close>.\<close>

definition PtrDetails_ctor :: "ptr \<Rightarrow> unsigned \<Rightarrow> PtrDetails" where
  "PtrDetails_ctor p n =
     \<lparr>refCount = 1, memPtr = p, isArray = (if n > 0 then True else False), arraySize = n\<rparr>"

definition upRefCount :: "PtrDetails \<Rightarrow> PtrDetails" where
  "upRefCount r = r\<lparr>refCount := refCount r + 1\<rparr>"

definition downRefCount :: "PtrDetails \<Rightarrow> PtrDetails" where
  "downRefCount r = r\<lparr>refCount := refCount r - 1\<rparr>"

definition zeroRefCount :: "PtrDetails \<Rightarrow> bool" where
  "zeroRefCount r = (refCount r = 0)"

text \<open>
  The instance members of \<open>Pointer<T, size>\<close>. The fields \<open>isArray\<close> and \<open>arraySize\<close>
  of the class carry a \<open>P\<close> here, since \<open>PtrDetails\<close> has fields of the same names.
\<close>

record Pointer =
  addr :: ptr
  isArrayP :: bool
  arraySizeP :: unsigned

text \<open>
  The two deallocation forms of the source, \<open>delete[] p\<close> and \<open>delete p\<close>, are recorded
  as events in the order in which \<open>collect\<close> issues them.
\<close>

datatype dealloc = DeleteArray ptr | DeleteScalar ptr

text \<open>
  The static members of one specialization (\<open>refContainer\<close>, \<open>first\<close>), with the two
  effects on the environment: the number of \<open>atexit(shutdown)\<close> registrations and the
  deallocations issued so far.
\<close>

record gc_state =
  refContainer :: "PtrDetails list"
  first :: bool
  atexit_calls :: nat
  freed :: "dealloc list"

definition init_state :: gc_state where
  "init_state = \<lparr>refContainer = [], first = True, atexit_calls = 0, freed = []\<rparr>"

text \<open>
  Dereferencing the iterator returned by \<open>findPtrInfo\<close> when it is \<open>refContainer.end()\<close>
  has no defined behaviour in C++. The source does so, unchecked, in the copy constructor,
  the destructor and \<open>operator=(Pointer &)\<close>; the model stops there with this value.
  \<open>NoSuchHandle\<close> is no behaviour of the library: it marks a script (below) that names a
  handle that is not live.
\<close>

datatype error = EndIteratorDeref | NoSuchHandle

section \<open>Operations\<close>

text \<open>
  \<open>findPtrInfo\<close> returns an iterator; the model returns the position of the first
  record whose \<open>memPtr\<close> is the address, and \<open>length\<close> of the list for \<open>end()\<close>.
\<close>

fun findPtrInfo :: "ptr \<Rightarrow> PtrDetails list \<Rightarrow> nat" where
  "findPtrInfo t [] = 0"
| "findPtrInfo t (p # ps) = (if memPtr p = t then 0 else Suc (findPtrInfo t ps))"

text \<open>\<open>Pointer(T *t)\<close>.\<close>

definition Pointer_ctor :: "unsigned \<Rightarrow> ptr \<Rightarrow> gc_state \<Rightarrow> gc_state \<times> Pointer" where
  "Pointer_ctor sz t s =
     (let s1 = (if first s then s\<lparr>atexit_calls := Suc (atexit_calls s)\<rparr> else s);
          s2 = s1\<lparr>first := False\<rparr>;
          rc = refContainer s2;
          p = findPtrInfo t rc;
          rc' = (if p \<noteq> length rc then rc[p := upRefCount (rc ! p)]
                 else rc @ [PtrDetails_ctor t sz])
      in (s2\<lparr>refContainer := rc'\<rparr>,
          \<lparr>addr = t, isArrayP = (if 0 <s sz then True else False), arraySizeP = sz\<rparr>))"

text \<open>\<open>Pointer(const Pointer &ob)\<close>.\<close>

definition Pointer_copy :: "Pointer \<Rightarrow> gc_state \<Rightarrow> error + gc_state \<times> Pointer" where
  "Pointer_copy ob s =
     (let rc = refContainer s;
          p = findPtrInfo (addr ob) rc
      in if p = length rc then Inl EndIteratorDeref
         else Inr (s\<lparr>refContainer := rc[p := upRefCount (rc ! p)]\<rparr>,
                   \<lparr>addr = addr ob, isArrayP = isArrayP ob, arraySizeP = arraySizeP ob\<rparr>))"

text \<open>
  \<open>collect()\<close>: the \<open>while\<close> loop over the list. The first argument is the part of the
  list from the iterator on; the result is what remains of that part, the deallocations
  issued and \<open>memfreed\<close>.
\<close>

fun collect_loop ::
  "PtrDetails list \<Rightarrow> dealloc list \<Rightarrow> bool \<Rightarrow> PtrDetails list \<times> dealloc list \<times> bool" where
  "collect_loop [] fr memfreed = ([], fr, memfreed)"
| "collect_loop (p # ps) fr memfreed =
     (if zeroRefCount p
      then collect_loop ps
             (fr @ [if isArray p then DeleteArray (memPtr p) else DeleteScalar (memPtr p)]) True
      else (case collect_loop ps fr memfreed of
              (ps', fr', memfreed') \<Rightarrow> (p # ps', fr', memfreed')))"

definition collect :: "gc_state \<Rightarrow> gc_state \<times> bool" where
  "collect s =
     (case collect_loop (refContainer s) (freed s) False of
        (rc, fr, memfreed) \<Rightarrow> (s\<lparr>refContainer := rc, freed := fr\<rparr>, memfreed))"

text \<open>
  \<open>~Pointer()\<close>. The two calls of \<open>showlist\<close> only print the list and are left out.
\<close>

definition Pointer_dtor :: "Pointer \<Rightarrow> gc_state \<Rightarrow> error + gc_state" where
  "Pointer_dtor h s =
     (let rc = refContainer s;
          p = findPtrInfo (addr h) rc
      in if p = length rc then Inl EndIteratorDeref
         else Inr (fst (collect (s\<lparr>refContainer := rc[p := downRefCount (rc ! p)]\<rparr>))))"

text \<open>\<open>T *operator=(T *t)\<close>: the new state, the handle after the assignment, the result.\<close>

definition assign_raw ::
  "unsigned \<Rightarrow> Pointer \<Rightarrow> ptr \<Rightarrow> gc_state \<Rightarrow> gc_state \<times> Pointer \<times> ptr" where
  "assign_raw sz h t s =
     (let rc = refContainer s;
          p = findPtrInfo (addr h) rc;
          rc1 = (if p \<noteq> length rc then rc[p := downRefCount (rc ! p)] else rc);
          q = findPtrInfo t rc1;
          rc2 = (if q = length rc1 then rc1 @ [PtrDetails_ctor t sz]
                 else rc1[q := upRefCount (rc1 ! q)])
      in (s\<lparr>refContainer := rc2\<rparr>,
          \<lparr>addr = t, isArrayP = (0 <s sz), arraySizeP = sz\<rparr>,
          t))"

text \<open>
  \<open>Pointer &operator=(Pointer &rv)\<close>. The class declares no \<open>operator!=\<close>; the test
  \<open>*this != rv\<close> converts both sides with \<open>operator T *()\<close> and compares the addresses.
\<close>

definition assign_handle :: "Pointer \<Rightarrow> Pointer \<Rightarrow> gc_state \<Rightarrow> error + gc_state \<times> Pointer" where
  "assign_handle h rv s =
     (if addr h \<noteq> addr rv then
        (let rc = refContainer s;
             p = findPtrInfo (addr h) rc
         in if p = length rc then Inl EndIteratorDeref
            else
              (let rc1 = rc[p := downRefCount (rc ! p)];
                   q = findPtrInfo (addr rv) rc1
               in if q = length rc1 then Inl EndIteratorDeref
                  else Inr (s\<lparr>refContainer := rc1[q := upRefCount (rc1 ! q)]\<rparr>,
                            \<lparr>addr = addr rv, isArrayP = isArrayP rv,
                             arraySizeP = arraySizeP rv\<rparr>)))
      else Inr (s, h))"

text \<open>
  \<open>static int refContainerSize() { return refContainer.size(); }\<close>. The size of the
  list is a \<open>size_t\<close>; the conversion to the 32-bit \<open>int\<close> of the result keeps its
  low 32 bits.
\<close>

definition refContainerSize :: "gc_state \<Rightarrow> 32 word" where
  "refContainerSize s = word_of_nat (length (refContainer s))"

text \<open>\<open>shutdown()\<close>.\<close>

definition shutdown :: "gc_state \<Rightarrow> gc_state" where
  "shutdown s =
     (if refContainerSize s = 0 then s
      else fst (collect (s\<lparr>refContainer := map (\<lambda>p. p\<lparr>refCount := 0\<rparr>) (refContainer s)\<rparr>)))"

text \<open>
  \<open>Pointer() { Pointer(NULL); }\<close>. The body builds a temporary over \<open>NULL\<close> and destroys
  it at the end of the statement; no member of the object under construction is assigned.
  The argument \<open>this\<close> is what the object's storage held before, and it is what the
  object holds afterwards.
\<close>

definition Pointer_default :: "unsigned \<Rightarrow> Pointer \<Rightarrow> gc_state \<Rightarrow> error + gc_state \<times> Pointer" where
  "Pointer_default sz this s =
     (case Pointer_ctor sz NULL s of
        (s1, tmp) \<Rightarrow>
          (case Pointer_dtor tmp s1 of
             Inl e \<Rightarrow> Inl e
           | Inr s2 \<Rightarrow> Inr (s2, this)))"

section \<open>Programs over a registry\<close>

text \<open>
  A program creates, copies, reassigns and destroys handles, all of one specialization.
  The handles that have been constructed and not yet destroyed are kept in a list; a
  handle is named by its position in it. \<open>DefaultConstruct this\<close> is the no-argument
  constructor on storage that held \<open>this\<close>; \<open>Collect\<close> is an explicit call of the
  static \<open>collect()\<close>; \<open>Shutdown\<close> is the exit function.
\<close>

record sys =
  gc :: gc_state
  live :: "Pointer list"

definition init_sys :: sys where
  "init_sys = \<lparr>gc = init_state, live = []\<rparr>"

datatype op =
    Construct ptr
  | CopyConstruct nat
  | Destruct nat
  | AssignRaw nat ptr
  | AssignHandle nat nat
  | Collect
  | DefaultConstruct Pointer
  | Shutdown

fun exec :: "unsigned \<Rightarrow> op \<Rightarrow> sys \<Rightarrow> error + sys" where
  "exec sz (Construct t) \<sigma> =
     (case Pointer_ctor sz t (gc \<sigma>) of
        (g, h) \<Rightarrow> Inr \<lparr>gc = g, live = live \<sigma> @ [h]\<rparr>)"
| "exec sz (CopyConstruct i) \<sigma> =
     (if i < length (live \<sigma>) then
        (case Pointer_copy (live \<sigma> ! i) (gc \<sigma>) of
           Inl e \<Rightarrow> Inl e
         | Inr (g, h) \<Rightarrow> Inr \<lparr>gc = g, live = live \<sigma> @ [h]\<rparr>)
      else Inl NoSuchHandle)"
| "exec sz (Destruct i) \<sigma> =
     (if i < length (live \<sigma>) then
        (case Pointer_dtor (live \<sigma> ! i) (gc \<sigma>) of
           Inl e \<Rightarrow> Inl e
         | Inr g \<Rightarrow> Inr \<lparr>gc = g, live = take i (live \<sigma>) @ drop (Suc i) (live \<sigma>)\<rparr>)
      else Inl NoSuchHandle)"
| "exec sz (AssignRaw i t) \<sigma> =
     (if i < length (live \<sigma>) then
        (case assign_raw sz (live \<sigma> ! i) t (gc \<sigma>) of
           (g, h, r) \<Rightarrow> Inr \<lparr>gc = g, live = (live \<sigma>)[i := h]\<rparr>)
      else Inl NoSuchHandle)"
| "exec sz (AssignHandle i j) \<sigma> =
     (if i < length (live \<sigma>) \<and> j < length (live \<sigma>) then
        (case assign_handle (live \<sigma> ! i) (live \<sigma> ! j) (gc \<sigma>) of
           Inl e \<Rightarrow> Inl e
         | Inr (g, h) \<Rightarrow> Inr \<lparr>gc = g, live = (live \<sigma>)[i := h]\<rparr>)
      else Inl NoSuchHandle)"
| "exec sz Collect \<sigma> = Inr \<lparr>gc = fst (collect (gc \<sigma>)), live = live \<sigma>\<rparr>"
| "exec sz (DefaultConstruct this) \<sigma> =
     (case Pointer_default sz this (gc \<sigma>) of
        Inl e \<Rightarrow> Inl e
      | Inr (g, h) \<Rightarrow> Inr \<lparr>gc = g, live = live \<sigma> @ [h]\<rparr>)"
| "exec sz Shutdown \<sigma> = Inr \<lparr>gc = shutdown (gc \<sigma>), live = live \<sigma>\<rparr>"

fun run :: "unsigned \<Rightarrow> op list \<Rightarrow> sys \<Rightarrow> error + sys" where
  "run sz [] \<sigma> = Inr \<sigma>"
| "run sz (x # xs) \<sigma> =
     (case exec sz x \<sigma> of
        Inl e \<Rightarrow> Inl e
      | Inr \<sigma>' \<Rightarrow> run sz xs \<sigma>')"

text \<open>
  The operations on handles proper and the sweep: every operation but the no-argument
  constructor (which leaves the new handle's address unset) and the exit function
  (which discards the counts).
\<close>

fun lifecycle_op :: "op \<Rightarrow> bool" where
  "lifecycle_op (DefaultConstruct this) = False"
| "lifecycle_op Shutdown = False"
| "lifecycle_op x = True"

section \<open>Notions used in the statements\<close>

text \<open>The deallocation that \<open>collect\<close> issues for a record.\<close>

definition dealloc_of :: "PtrDetails \<Rightarrow> dealloc" where
  "dealloc_of p = (if isArray p then DeleteArray (memPtr p) else DeleteScalar (memPtr p))"

text \<open>The record that \<open>findPtrInfo\<close> points to, if it points to one.\<close>

definition record_of :: "ptr \<Rightarrow> PtrDetails list \<Rightarrow> PtrDetails option" where
  "record_of t rc =
     (if findPtrInfo t rc = length rc then None else Some (rc ! findPtrInfo t rc))"

text \<open>The number of live handles that hold an address.\<close>

definition holders :: "ptr \<Rightarrow> Pointer list \<Rightarrow> nat" where
  "holders a hs = count_list (map addr hs) a"

text \<open>
  What the counts are meant to say, for a list of records \<open>rc\<close> and the addresses
  \<open>M\<close> held by the live handles (an address as often as handles hold it): no address
  has two records, every held address has a record, every record's count is the number
  of handles that hold its address, and there are fewer handles than an \<open>unsigned\<close>
  can count.
\<close>

definition counts_ok :: "PtrDetails list \<Rightarrow> ptr multiset \<Rightarrow> bool" where
  "counts_ok rc M \<longleftrightarrow>
     distinct (map memPtr rc) \<and>
     (\<forall>a. a \<in># M \<longrightarrow> a \<in> memPtr ` set rc) \<and>
     (\<forall>r \<in> set rc. unat (refCount r) = count M (memPtr r)) \<and>
     size M < 2 ^ 32"

definition consistent :: "sys \<Rightarrow> bool" where
  "consistent \<sigma> \<longleftrightarrow> counts_ok (refContainer (gc \<sigma>)) (mset (map addr (live \<sigma>)))"

section \<open>Looking an address up\<close>

lemma findPtrInfo_le: "findPtrInfo t rc \<le> length rc"
  by (induction rc) simp_all

lemma findPtrInfo_end_iff: "findPtrInfo t rc = length rc \<longleftrightarrow> t \<notin> memPtr ` set rc"
  by (induction rc) simp_all

lemma findPtrInfo_nth: "findPtrInfo t rc \<noteq> length rc \<Longrightarrow> memPtr (rc ! findPtrInfo t rc) = t"
  by (induction rc) (simp_all split: if_splits)

lemma findPtrInfo_cong: "map memPtr rc = map memPtr rc' \<Longrightarrow> findPtrInfo t rc = findPtrInfo t rc'"
proof (induction rc arbitrary: rc')
  case Nil then show ?case by simp
next
  case (Cons p ps)
  then obtain q qs where "rc' = q # qs" by (cases rc') simp_all
  with Cons show ?case by simp
qed

lemma findPtrInfo_append_absent:
  "findPtrInfo t rc = length rc \<Longrightarrow> memPtr r = t \<Longrightarrow> findPtrInfo t (rc @ [r]) = length rc"
  by (induction rc) (simp_all split: if_splits)

lemma findPtrInfo_append_present:
  "findPtrInfo t rc \<noteq> length rc \<Longrightarrow> findPtrInfo t (rc @ rs) = findPtrInfo t rc"
  by (induction rc) (simp_all split: if_splits)

lemma record_of_Nil: "record_of t [] = None" by (simp add: record_of_def)

lemma record_of_Cons: "record_of t (p # ps) = (if memPtr p = t then Some p else record_of t ps)"
  by (simp add: record_of_def)

lemma record_of_None_iff: "record_of t rc = None \<longleftrightarrow> findPtrInfo t rc = length rc"
  by (simp add: record_of_def)

lemma record_of_memPtr: "record_of t rc = Some r \<Longrightarrow> memPtr r = t"
  using findPtrInfo_nth [of t rc] by (auto simp: record_of_def split: if_splits)

lemma record_of_append:
  "record_of a (rc @ [r]) =
     (case record_of a rc of Some x \<Rightarrow> Some x | None \<Rightarrow> if memPtr r = a then Some r else None)"
  by (induction rc) (simp_all add: record_of_Nil record_of_Cons)

lemma update_found_same:
  "findPtrInfo t rc \<noteq> length rc \<Longrightarrow> (\<And>r. memPtr (f r) = memPtr r) \<Longrightarrow>
   record_of t (rc[findPtrInfo t rc := f (rc ! findPtrInfo t rc)]) = Some (f (rc ! findPtrInfo t rc))"
  by (induction rc) (auto simp add: record_of_Nil record_of_Cons split: if_splits)

lemma update_found_other:
  "a \<noteq> t \<Longrightarrow> (\<And>r. memPtr (f r) = memPtr r) \<Longrightarrow>
   record_of a (rc[findPtrInfo t rc := f (rc ! findPtrInfo t rc)]) = record_of a rc"
  by (induction rc) (simp_all add: record_of_Nil record_of_Cons)

lemma update_memPtr:
  "(\<And>r. memPtr (f r) = memPtr r) \<Longrightarrow> map memPtr (rc[i := f (rc ! i)]) = map memPtr rc"
proof (cases "i < length rc")
  case True
  assume "\<And>r. memPtr (f r) = memPtr r"
  with True show ?thesis by (simp add: map_update list_update_same_conv)
next
  case False
  then have "rc[i := f (rc ! i)] = rc" by (simp add: list_update_beyond)
  then show ?thesis by simp
qed

lemma findPtrInfo_update:
  "(\<And>r. memPtr (f r) = memPtr r) \<Longrightarrow> findPtrInfo t (rc[i := f (rc ! i)]) = findPtrInfo t rc"
  by (rule findPtrInfo_cong) (simp add: update_memPtr)

lemma memPtr_upRefCount [simp]: "memPtr (upRefCount r) = memPtr r"
  by (simp add: upRefCount_def)

lemma memPtr_downRefCount [simp]: "memPtr (downRefCount r) = memPtr r"
  by (simp add: downRefCount_def)


lemma memPtr_release:
  "map memPtr (if findPtrInfo A rc \<noteq> length rc
                then rc[findPtrInfo A rc := downRefCount (rc ! findPtrInfo A rc)] else rc) =
   map memPtr rc"
  by (simp add: update_memPtr)

lemma record_of_register:
  "record_of a (if findPtrInfo B rc = length rc then rc @ [PtrDetails_ctor B sz]
                else rc[findPtrInfo B rc := upRefCount (rc ! findPtrInfo B rc)]) =
   (if a = B then Some (case record_of B rc of None \<Rightarrow> PtrDetails_ctor B sz
                                              | Some r \<Rightarrow> upRefCount r)
    else record_of a rc)"
proof (cases "findPtrInfo B rc = length rc")
  case True
  then have "record_of B rc = None" by (simp add: record_of_def)
  with True show ?thesis
    by (simp add: record_of_append PtrDetails_ctor_def split: option.splits)
next
  case False
  show ?thesis
  proof (cases "a = B")
    case True
    with False update_found_same [of B rc upRefCount] show ?thesis
      by (simp add: record_of_def)
  next
    case ne: False
    with False update_found_other [of a B upRefCount rc] show ?thesis by simp
  qed
qed

lemma memPtr_register:
  "map memPtr (if findPtrInfo B rc = length rc then rc @ [PtrDetails_ctor B sz]
                else rc[findPtrInfo B rc := upRefCount (rc ! findPtrInfo B rc)]) =
   map memPtr rc @ (if findPtrInfo B rc = length rc then [B] else [])"
  by (simp add: update_memPtr PtrDetails_ctor_def)

section \<open>The sweep\<close>

lemma collect_loop_eq:
  "collect_loop ps fr m =
     (filter (\<lambda>p. refCount p \<noteq> 0) ps,
      fr @ map dealloc_of (filter (\<lambda>p. refCount p = 0) ps),
      m \<or> filter (\<lambda>p. refCount p = 0) ps \<noteq> [])"
  by (induction ps arbitrary: fr m) (simp_all add: zeroRefCount_def dealloc_of_def)

lemma collect_eq:
  "collect s =
     (s\<lparr>refContainer := filter (\<lambda>p. refCount p \<noteq> 0) (refContainer s),
        freed := freed s @ map dealloc_of (filter (\<lambda>p. refCount p = 0) (refContainer s))\<rparr>,
      filter (\<lambda>p. refCount p = 0) (refContainer s) \<noteq> [])"
  by (simp add: collect_def collect_loop_eq)

text \<open>
  C2. One pass of \<open>collect\<close> keeps exactly the records whose count is not zero, unchanged
  and in their order; for each record whose count is zero it issues, in list order, one
  deallocation of the record's address, \<open>delete[]\<close> if \<open>isArray\<close> and \<open>delete\<close>
  otherwise; it returns true exactly when the list has become shorter; it touches
  nothing else.
\<close>

theorem collect_sweeps_zero_records:
  "refContainer (fst (collect s)) = filter (\<lambda>p. refCount p \<noteq> 0) (refContainer s) \<and>
   freed (fst (collect s)) =
     freed s @ map (\<lambda>p. if isArray p then DeleteArray (memPtr p) else DeleteScalar (memPtr p))
                   (filter (\<lambda>p. refCount p = 0) (refContainer s)) \<and>
   snd (collect s) = (length (refContainer (fst (collect s))) < length (refContainer s)) \<and>
   snd (collect s) = (filter (\<lambda>p. refCount p = 0) (refContainer s) \<noteq> []) \<and>
   first (fst (collect s)) = first s \<and>
   atexit_calls (fst (collect s)) = atexit_calls s"
proof -
  let ?rc = "refContainer s"
  have len: "length ?rc =
      length (filter (\<lambda>p. refCount p \<noteq> 0) ?rc) + length (filter (\<lambda>p. refCount p = 0) ?rc)"
    using sum_length_filter_compl [of "\<lambda>p. refCount p \<noteq> 0" ?rc] by simp
  have "(filter (\<lambda>p. refCount p = 0) ?rc \<noteq> []) =
        (length (filter (\<lambda>p. refCount p \<noteq> 0) ?rc) < length ?rc)"
    using len by (cases "filter (\<lambda>p. refCount p = 0) ?rc") simp_all
  moreover have "map dealloc_of =
      map (\<lambda>p. if isArray p then DeleteArray (memPtr p) else DeleteScalar (memPtr p))"
    by (simp add: dealloc_of_def fun_eq_iff)
  ultimately show ?thesis
    by (simp add: collect_eq)
qed

theorem collect_sweeps_zero_records_witness:
  "collect \<lparr>refContainer =
       [\<lparr>refCount = 0, memPtr = 4, isArray = True, arraySize = 3\<rparr>,
        \<lparr>refCount = 2, memPtr = 8, isArray = False, arraySize = 0\<rparr>,
        \<lparr>refCount = 0, memPtr = 12, isArray = False, arraySize = 0\<rparr>],
     first = False, atexit_calls = 1, freed = []\<rparr> =
   (\<lparr>refContainer = [\<lparr>refCount = 2, memPtr = 8, isArray = False, arraySize = 0\<rparr>],
     first = False, atexit_calls = 1, freed = [DeleteArray 4, DeleteScalar 12]\<rparr>, True)"
  using collect_sweeps_zero_records
    [of "\<lparr>refContainer =
       [\<lparr>refCount = 0, memPtr = 4, isArray = True, arraySize = 3\<rparr>,
        \<lparr>refCount = 2, memPtr = 8, isArray = False, arraySize = 0\<rparr>,
        \<lparr>refCount = 0, memPtr = 12, isArray = False, arraySize = 0\<rparr>],
     first = False, atexit_calls = 1, freed = []\<rparr>"]
  by (simp add: collect_def zeroRefCount_def)

section \<open>Teardown\<close>

lemma refContainerSize_0_iff:
  assumes "length (refContainer s) < 2 ^ 32"
  shows "refContainerSize s = 0 \<longleftrightarrow> refContainer s = []"
proof (cases "refContainer s = []")
  case True
  then show ?thesis by (simp add: refContainerSize_def)
next
  case False
  then have pos: "0 < length (refContainer s)" by simp
  have "length (refContainer s) < 2 ^ LENGTH(32)" using assms by simp
  with pos have "(word_of_nat (length (refContainer s)) :: 32 word) \<noteq> 0"
    by (rule of_nat_neq_0)
  with False show ?thesis by (simp add: refContainerSize_def)
qed

lemma shutdown_sweeps_all:
  "fst (collect (s\<lparr>refContainer := map (\<lambda>p. p\<lparr>refCount := 0\<rparr>) (refContainer s)\<rparr>)) =
   s\<lparr>refContainer := [], freed := freed s @ map dealloc_of (refContainer s)\<rparr>"
proof -
  have "filter (\<lambda>p. refCount p \<noteq> 0) (map (\<lambda>p. p\<lparr>refCount := 0\<rparr>) (refContainer s)) = []"
    by (simp add: filter_empty_conv)
  moreover have "filter (\<lambda>p. refCount p = 0) (map (\<lambda>p. p\<lparr>refCount := 0\<rparr>) (refContainer s))
      = map (\<lambda>p. p\<lparr>refCount := 0\<rparr>) (refContainer s)"
    by (simp add: filter_id_conv)
  moreover have "map dealloc_of (map (\<lambda>p. p\<lparr>refCount := 0\<rparr>) (refContainer s))
      = map dealloc_of (refContainer s)"
    by (simp add: dealloc_of_def)
  ultimately show ?thesis
    by (simp add: collect_eq)
qed

lemma shutdown_eq:
  assumes "length (refContainer s) < 2 ^ 32"
  shows "shutdown s = s\<lparr>refContainer := [], freed := freed s @ map dealloc_of (refContainer s)\<rparr>"
proof (cases "refContainer s = []")
  case True
  then show ?thesis
    using refContainerSize_0_iff [OF assms] by (simp add: shutdown_def)
next
  case False
  then have "refContainerSize s \<noteq> 0"
    using refContainerSize_0_iff [OF assms] by simp
  then show ?thesis
    by (simp add: shutdown_def shutdown_sweeps_all)
qed

lemma shutdown_cases:
  "shutdown s = s \<or>
   shutdown s = s\<lparr>refContainer := [], freed := freed s @ map dealloc_of (refContainer s)\<rparr>"
  by (simp add: shutdown_def shutdown_sweeps_all)

text \<open>
  C6. For a list of fewer than \<open>2 ^ 32\<close> records (so that \<open>refContainerSize\<close>, an
  \<open>int\<close>, is 0 only for the empty list), \<open>shutdown\<close> leaves the list empty whatever
  the counts were, and issues one deallocation for each record that was in it, in list
  order and in the form the record's \<open>isArray\<close> asks for.
\<close>

theorem shutdown_reclaims_everything:
  assumes "length (refContainer s) < 2 ^ 32"
  shows "refContainer (shutdown s) = [] \<and>
         freed (shutdown s) = freed s @ map dealloc_of (refContainer s)"
  by (simp add: shutdown_eq [OF assms])

theorem shutdown_reclaims_everything_witness:
  "length (refContainer \<lparr>refContainer =
       [\<lparr>refCount = 3, memPtr = 4, isArray = True, arraySize = 3\<rparr>,
        \<lparr>refCount = 0, memPtr = 8, isArray = False, arraySize = 0\<rparr>],
     first = False, atexit_calls = 1, freed = [DeleteScalar 2]\<rparr>) < (2::nat) ^ 32 \<and>
   shutdown \<lparr>refContainer =
       [\<lparr>refCount = 3, memPtr = 4, isArray = True, arraySize = 3\<rparr>,
        \<lparr>refCount = 0, memPtr = 8, isArray = False, arraySize = 0\<rparr>],
     first = False, atexit_calls = 1, freed = [DeleteScalar 2]\<rparr> =
   \<lparr>refContainer = [], first = False, atexit_calls = 1,
    freed = [DeleteScalar 2, DeleteArray 4, DeleteScalar 8]\<rparr>"
proof -
  let ?s = "\<lparr>refContainer =
       [\<lparr>refCount = 3, memPtr = 4, isArray = True, arraySize = 3\<rparr>,
        \<lparr>refCount = 0, memPtr = 8, isArray = False, arraySize = 0\<rparr>],
     first = False, atexit_calls = 1, freed = [DeleteScalar 2]\<rparr>"
  have h: "length (refContainer ?s) < 2 ^ 32" by simp
  have "shutdown ?s = \<lparr>refContainer = [], first = False, atexit_calls = 1,
    freed = [DeleteScalar 2, DeleteArray 4, DeleteScalar 8]\<rparr>"
    using shutdown_reclaims_everything [OF h]
    by (simp add: shutdown_def refContainerSize_def collect_def zeroRefCount_def dealloc_of_def)
  with h show ?thesis by (intro conjI)
qed

section \<open>Construction and destruction\<close>

lemma Pointer_ctor_eq:
  "Pointer_ctor sz t s =
     (s\<lparr>atexit_calls := (if first s then Suc (atexit_calls s) else atexit_calls s),
        first := False,
        refContainer :=
          (if findPtrInfo t (refContainer s) = length (refContainer s)
           then refContainer s @ [PtrDetails_ctor t sz]
           else (refContainer s)[findPtrInfo t (refContainer s) :=
                  upRefCount (refContainer s ! findPtrInfo t (refContainer s))])\<rparr>,
      \<lparr>addr = t, isArrayP = (0 <s sz), arraySizeP = sz\<rparr>)"
  by (simp add: Pointer_ctor_def Let_def)

lemma Pointer_ctor_refContainer:
  "refContainer (fst (Pointer_ctor sz t s)) =
     (if findPtrInfo t (refContainer s) = length (refContainer s)
      then refContainer s @ [PtrDetails_ctor t sz]
      else (refContainer s)[findPtrInfo t (refContainer s) :=
             upRefCount (refContainer s ! findPtrInfo t (refContainer s))])"
  by (simp add: Pointer_ctor_def Let_def)

lemma Pointer_ctor_rest:
  "freed (fst (Pointer_ctor sz t s)) = freed s"
  "first (fst (Pointer_ctor sz t s)) = False"
  "atexit_calls (fst (Pointer_ctor sz t s)) =
     (if first s then Suc (atexit_calls s) else atexit_calls s)"
  "snd (Pointer_ctor sz t s) = \<lparr>addr = t, isArrayP = (0 <s sz), arraySizeP = sz\<rparr>"
  by (simp_all add: Pointer_ctor_def Let_def)

lemma Pointer_copy_found:
  "findPtrInfo (addr ob) (refContainer s) \<noteq> length (refContainer s) \<Longrightarrow>
   Pointer_copy ob s =
     Inr (s\<lparr>refContainer := (refContainer s)[findPtrInfo (addr ob) (refContainer s) :=
            upRefCount (refContainer s ! findPtrInfo (addr ob) (refContainer s))]\<rparr>, ob)"
  by (simp add: Pointer_copy_def Let_def)

lemma Pointer_dtor_found:
  "findPtrInfo (addr h) (refContainer s) \<noteq> length (refContainer s) \<Longrightarrow>
   Pointer_dtor h s =
     Inr (fst (collect (s\<lparr>refContainer := (refContainer s)[findPtrInfo (addr h) (refContainer s) :=
            downRefCount (refContainer s ! findPtrInfo (addr h) (refContainer s))]\<rparr>)))"
  by (simp add: Pointer_dtor_def Let_def)

lemma ctor_then_dtor:
  "Pointer_dtor (snd (Pointer_ctor sz t s)) (fst (Pointer_ctor sz t s)) =
     Inr (fst (collect
       (s\<lparr>first := False,
          atexit_calls := (if first s then Suc (atexit_calls s) else atexit_calls s),
          refContainer :=
            (if findPtrInfo t (refContainer s) = length (refContainer s)
             then refContainer s @ [\<lparr>refCount = 0, memPtr = t, isArray = (0 < sz), arraySize = sz\<rparr>]
             else refContainer s)\<rparr>)))"
proof -
  let ?rc = "refContainer s"
  let ?s1 = "fst (Pointer_ctor sz t s)"
  let ?p = "findPtrInfo t ?rc"
  obtain s1 h1 where c: "Pointer_ctor sz t s = (s1, h1)" by (cases "Pointer_ctor sz t s")
  have h1: "addr h1 = t" using Pointer_ctor_rest(4) [of sz t s] c by simp
  have rest: "freed s1 = freed s" "first s1 = False"
    "atexit_calls s1 = (if first s then Suc (atexit_calls s) else atexit_calls s)"
    using Pointer_ctor_rest(1-3) [of sz t s] c by simp_all
  have s1_eq: "s1 = s\<lparr>first := False,
          atexit_calls := (if first s then Suc (atexit_calls s) else atexit_calls s),
          refContainer := refContainer s1\<rparr>"
    using c by (simp add: Pointer_ctor_def Let_def split: if_splits) auto
  show ?thesis
  proof (cases "?p = length ?rc")
    case True
    have rc1: "refContainer s1 = ?rc @ [PtrDetails_ctor t sz]"
      using Pointer_ctor_refContainer [of sz t s] c True by simp
    have f: "findPtrInfo t (refContainer s1) = length ?rc"
      unfolding rc1 by (rule findPtrInfo_append_absent [OF True]) (simp add: PtrDetails_ctor_def)
    have "Pointer_dtor h1 s1 = Inr (fst (collect (s1\<lparr>refContainer :=
        (refContainer s1)[length ?rc := downRefCount (refContainer s1 ! length ?rc)]\<rparr>)))"
      using Pointer_dtor_found [of h1 s1] f h1 rc1 by simp
    moreover have "(refContainer s1)[length ?rc := downRefCount (refContainer s1 ! length ?rc)]
        = ?rc @ [\<lparr>refCount = 0, memPtr = t, isArray = (0 < sz), arraySize = sz\<rparr>]"
      unfolding rc1 by (simp add: downRefCount_def PtrDetails_ctor_def)
    ultimately show ?thesis
      using True c by (subst (asm) s1_eq) simp
  next
    case False
    have rc1: "refContainer s1 = ?rc[?p := upRefCount (?rc ! ?p)]"
      using Pointer_ctor_refContainer [of sz t s] c False by simp
    have f: "findPtrInfo t (refContainer s1) = ?p"
      unfolding rc1 by (rule findPtrInfo_update) simp
    have lt: "?p < length ?rc" using False findPtrInfo_le [of t ?rc] by simp
    have "Pointer_dtor h1 s1 = Inr (fst (collect (s1\<lparr>refContainer :=
        (refContainer s1)[?p := downRefCount (refContainer s1 ! ?p)]\<rparr>)))"
      using Pointer_dtor_found [of h1 s1] f h1 rc1 False by simp
    moreover have "(refContainer s1)[?p := downRefCount (refContainer s1 ! ?p)] = ?rc"
      unfolding rc1 using lt by (simp add: downRefCount_def upRefCount_def)
    ultimately show ?thesis
      using False c by (subst (asm) s1_eq) simp
  qed
qed

lemma ctor_at_end:
  assumes "refContainer s = rc @ [r]" "memPtr r = t" "findPtrInfo t rc = length rc"
  shows "refContainer (fst (Pointer_ctor sz t s)) = rc @ [upRefCount r]"
proof -
  have f: "findPtrInfo t (rc @ [r]) = length rc"
    by (rule findPtrInfo_append_absent [OF assms(3) assms(2)])
  show ?thesis
    unfolding Pointer_ctor_refContainer assms(1) f by simp
qed

lemma dtor_at_end:
  assumes "refContainer s = rc @ [r]" "memPtr r = addr h" "findPtrInfo (addr h) rc = length rc"
  shows "\<exists>s'. Pointer_dtor h s = Inr s' \<and>
     refContainer s' = filter (\<lambda>p. refCount p \<noteq> 0) rc @
        (if refCount r = 1 then [] else [downRefCount r]) \<and>
     freed s' = freed s @ map dealloc_of (filter (\<lambda>p. refCount p = 0) rc) @
        (if refCount r = 1 then [dealloc_of r] else [])"
proof -
  have f: "findPtrInfo (addr h) (refContainer s) = length rc"
    unfolding assms(1) by (rule findPtrInfo_append_absent [OF assms(3) assms(2)])
  have ne: "findPtrInfo (addr h) (refContainer s) \<noteq> length (refContainer s)"
    using f assms(1) by simp
  have z: "(refCount r - 1 = 0) = (refCount r = 1)" by auto
  show ?thesis
    unfolding Pointer_dtor_found [OF ne] f
    by (simp add: assms(1) collect_eq downRefCount_def dealloc_of_def z)
qed

lemma absent_filter:
  "findPtrInfo t rc = length rc \<Longrightarrow> filter (\<lambda>r. memPtr r = t) rc = []"
  by (auto simp: findPtrInfo_end_iff filter_empty_conv)

lemma absent_in_filter:
  "findPtrInfo t rc = length rc \<Longrightarrow> findPtrInfo t (filter P rc) = length (filter P rc)"
  by (auto simp: findPtrInfo_end_iff)

lemma absent_dealloc:
  "findPtrInfo t rc = length rc \<Longrightarrow>
   filter (\<lambda>d. d = DeleteArray t \<or> d = DeleteScalar t) (map dealloc_of (filter P rc)) = []"
  by (auto simp: findPtrInfo_end_iff filter_empty_conv dealloc_of_def)

text \<open>
  C7. The constructor \<open>Pointer(T *t)\<close> appends a record with count 1 when
  \<open>findPtrInfo\<close> finds none for \<open>t\<close>, and adds one to the count of the record
  found otherwise. When an address \<open>A\<close> has no record, two handles constructed over
  \<open>A\<close> leave exactly one record for \<open>A\<close>, with count 2; destroying the two
  handles succeeds, the first destruction leaves the record with count 1 and issues no
  deallocation of \<open>A\<close>, the second removes the record and issues exactly one.
\<close>

theorem two_handles_share_one_record:
  assumes "record_of A (refContainer s) = None"
  shows "(record_of t (refContainer (fst (Pointer_ctor sz t s0))) =
            Some (case record_of t (refContainer s0) of
                    None \<Rightarrow> \<lparr>refCount = 1, memPtr = t, isArray = (0 < sz), arraySize = sz\<rparr>
                  | Some r \<Rightarrow> r\<lparr>refCount := refCount r + 1\<rparr>) \<and>
          map memPtr (refContainer (fst (Pointer_ctor sz t s0))) =
            map memPtr (refContainer s0) @
              (case record_of t (refContainer s0) of None \<Rightarrow> [t] | Some r \<Rightarrow> [])) \<and>
         (case Pointer_ctor sz A s of (s1, h1) \<Rightarrow>
          case Pointer_ctor sz A s1 of (s2, h2) \<Rightarrow>
            filter (\<lambda>r. memPtr r = A) (refContainer s2) =
              [\<lparr>refCount = 2, memPtr = A, isArray = (0 < sz), arraySize = sz\<rparr>] \<and>
            (\<exists>s3 s4. Pointer_dtor h1 s2 = Inr s3 \<and> Pointer_dtor h2 s3 = Inr s4 \<and>
               filter (\<lambda>r. memPtr r = A) (refContainer s3) =
                 [\<lparr>refCount = 1, memPtr = A, isArray = (0 < sz), arraySize = sz\<rparr>] \<and>
               filter (\<lambda>d. d = DeleteArray A \<or> d = DeleteScalar A) (freed s3) =
                 filter (\<lambda>d. d = DeleteArray A \<or> d = DeleteScalar A) (freed s) \<and>
               filter (\<lambda>r. memPtr r = A) (refContainer s4) = [] \<and>
               filter (\<lambda>d. d = DeleteArray A \<or> d = DeleteScalar A) (freed s4) =
                 filter (\<lambda>d. d = DeleteArray A \<or> d = DeleteScalar A) (freed s) @
                   [if 0 < sz then DeleteArray A else DeleteScalar A]))"
proof -
  let ?rc = "refContainer s"
  let ?F = "filter (\<lambda>p. refCount p \<noteq> 0) ?rc"
  let ?n = "\<lambda>c. \<lparr>refCount = c, memPtr = A, isArray = (0 < sz), arraySize = sz\<rparr>"
  let ?onA = "\<lambda>d. d = DeleteArray A \<or> d = DeleteScalar A"
  have general: "record_of t (refContainer (fst (Pointer_ctor sz t s0))) =
            Some (case record_of t (refContainer s0) of
                    None \<Rightarrow> \<lparr>refCount = 1, memPtr = t, isArray = (0 < sz), arraySize = sz\<rparr>
                  | Some r \<Rightarrow> r\<lparr>refCount := refCount r + 1\<rparr>) \<and>
          map memPtr (refContainer (fst (Pointer_ctor sz t s0))) =
            map memPtr (refContainer s0) @
              (case record_of t (refContainer s0) of None \<Rightarrow> [t] | Some r \<Rightarrow> [])"
    unfolding Pointer_ctor_refContainer memPtr_register
    using record_of_register [of t t "refContainer s0" sz]
    by (simp add: PtrDetails_ctor_def upRefCount_def record_of_def split: option.splits)
  have absent: "findPtrInfo A ?rc = length ?rc"
    using assms by (simp add: record_of_def split: if_splits)
  obtain s1 h1 where c1: "Pointer_ctor sz A s = (s1, h1)" by (cases "Pointer_ctor sz A s")
  obtain s2 h2 where c2: "Pointer_ctor sz A s1 = (s2, h2)" by (cases "Pointer_ctor sz A s1")
  have h1: "addr h1 = A" using Pointer_ctor_rest(4) [of sz A s] c1 by simp
  have h2: "addr h2 = A" using Pointer_ctor_rest(4) [of sz A s1] c2 by simp
  have rc1: "refContainer s1 = ?rc @ [?n 1]"
    using Pointer_ctor_refContainer [of sz A s] c1 absent by (simp add: PtrDetails_ctor_def)
  have fr1: "freed s1 = freed s" using Pointer_ctor_rest(1) [of sz A s] c1 by simp
  have rc2: "refContainer s2 = ?rc @ [?n 2]"
    using ctor_at_end [OF rc1 _ absent, of sz] c2 by (simp add: upRefCount_def)
  have fr2: "freed s2 = freed s" using Pointer_ctor_rest(1) [of sz A s1] c2 fr1 by simp
  obtain s3 where d3: "Pointer_dtor h1 s2 = Inr s3"
    and rc3: "refContainer s3 = ?F @ [?n 1]"
    and fr3: "freed s3 = freed s @ map dealloc_of (filter (\<lambda>p. refCount p = 0) ?rc)"
    using dtor_at_end [OF rc2, of h1] h1 absent fr2 by (auto simp: downRefCount_def)
  have absentF: "findPtrInfo (addr h2) ?F = length ?F"
    using absent_in_filter [OF absent] h2 by simp
  have FF: "filter (\<lambda>p. refCount p \<noteq> 0) ?F = ?F" "filter (\<lambda>p. refCount p = 0) ?F = []"
    by (simp_all add: filter_empty_conv)
  obtain s4 where d4: "Pointer_dtor h2 s3 = Inr s4"
    and rc4: "refContainer s4 = ?F"
    and fr4: "freed s4 = freed s3 @ [dealloc_of (?n 1)]"
    using dtor_at_end [OF rc3 _ absentF] h2 FF by auto
  have A2: "filter (\<lambda>r. memPtr r = A) (refContainer s2) = [?n 2]"
    unfolding rc2 using absent_filter [OF absent] by simp
  have A3: "filter (\<lambda>r. memPtr r = A) (refContainer s3) = [?n 1]"
    unfolding rc3 using absent_filter [OF absent_in_filter [OF absent]] by simp
  have A4: "filter (\<lambda>r. memPtr r = A) (refContainer s4) = []"
    unfolding rc4 using absent_filter [OF absent_in_filter [OF absent]] by simp
  have D3: "filter ?onA (freed s3) = filter ?onA (freed s)"
    unfolding fr3 using absent_dealloc [OF absent] by simp
  have D4: "filter ?onA (freed s4) =
      filter ?onA (freed s) @ [if 0 < sz then DeleteArray A else DeleteScalar A]"
    unfolding fr4 using D3 by (simp add: dealloc_of_def)
  have "filter (\<lambda>r. memPtr r = A) (refContainer s2) = [?n 2] \<and>
     (\<exists>s3 s4. Pointer_dtor h1 s2 = Inr s3 \<and> Pointer_dtor h2 s3 = Inr s4 \<and>
        filter (\<lambda>r. memPtr r = A) (refContainer s3) = [?n 1] \<and>
        filter ?onA (freed s3) = filter ?onA (freed s) \<and>
        filter (\<lambda>r. memPtr r = A) (refContainer s4) = [] \<and>
        filter ?onA (freed s4) =
          filter ?onA (freed s) @ [if 0 < sz then DeleteArray A else DeleteScalar A])"
    using A2 d3 d4 A3 D3 A4 D4 by blast
  with general show ?thesis
    unfolding c1 by (simp only: c2 prod.case) 
qed

theorem two_handles_share_one_record_witness:
  "record_of 4 (refContainer init_state) = None \<and>
   refContainer (fst (Pointer_ctor 0 4 (fst (Pointer_ctor 0 4 init_state)))) =
     [\<lparr>refCount = 2, memPtr = 4, isArray = False, arraySize = 0\<rparr>] \<and>
   Pointer_dtor \<lparr>addr = 4, isArrayP = False, arraySizeP = 0\<rparr>
     \<lparr>refContainer = [\<lparr>refCount = 2, memPtr = 4, isArray = False, arraySize = 0\<rparr>],
      first = False, atexit_calls = 1, freed = []\<rparr> =
     Inr \<lparr>refContainer = [\<lparr>refCount = 1, memPtr = 4, isArray = False, arraySize = 0\<rparr>],
          first = False, atexit_calls = 1, freed = []\<rparr> \<and>
   Pointer_dtor \<lparr>addr = 4, isArrayP = False, arraySizeP = 0\<rparr>
     \<lparr>refContainer = [\<lparr>refCount = 1, memPtr = 4, isArray = False, arraySize = 0\<rparr>],
      first = False, atexit_calls = 1, freed = []\<rparr> =
     Inr \<lparr>refContainer = [], first = False, atexit_calls = 1, freed = [DeleteScalar 4]\<rparr>"
proof -
  have h: "record_of 4 (refContainer init_state) = None"
    by (simp add: init_state_def record_of_def)
  show ?thesis
    using h two_handles_share_one_record [OF h, where t = 4 and sz = 0 and ?s0.0 = init_state]
    by (simp add: init_state_def Pointer_ctor_def Pointer_dtor_def collect_def
        PtrDetails_ctor_def upRefCount_def downRefCount_def zeroRefCount_def Let_def)
qed

section \<open>Handles over the null address\<close>

text \<open>
  C4, as the claim states it, fails: a handle constructed over \<open>NULL\<close> in the initial
  state leaves a record for \<open>NULL\<close> with count 1, a copy of the handle raises the
  count to 2, and destroying a handle lowers it again.
\<close>

theorem null_handle_is_registered_counterexample:
  "Pointer_ctor 0 NULL init_state =
     (\<lparr>refContainer = [\<lparr>refCount = 1, memPtr = NULL, isArray = False, arraySize = 0\<rparr>],
       first = False, atexit_calls = 1, freed = []\<rparr>,
      \<lparr>addr = NULL, isArrayP = False, arraySizeP = 0\<rparr>) \<and>
   Pointer_copy \<lparr>addr = NULL, isArrayP = False, arraySizeP = 0\<rparr>
     \<lparr>refContainer = [\<lparr>refCount = 1, memPtr = NULL, isArray = False, arraySize = 0\<rparr>],
      first = False, atexit_calls = 1, freed = []\<rparr> =
     Inr (\<lparr>refContainer = [\<lparr>refCount = 2, memPtr = NULL, isArray = False, arraySize = 0\<rparr>],
           first = False, atexit_calls = 1, freed = []\<rparr>,
          \<lparr>addr = NULL, isArrayP = False, arraySizeP = 0\<rparr>) \<and>
   Pointer_dtor \<lparr>addr = NULL, isArrayP = False, arraySizeP = 0\<rparr>
     \<lparr>refContainer = [\<lparr>refCount = 2, memPtr = NULL, isArray = False, arraySize = 0\<rparr>],
      first = False, atexit_calls = 1, freed = []\<rparr> =
     Inr \<lparr>refContainer = [\<lparr>refCount = 1, memPtr = NULL, isArray = False, arraySize = 0\<rparr>],
          first = False, atexit_calls = 1, freed = []\<rparr>"
  by (simp add: Pointer_ctor_def Pointer_copy_def Pointer_dtor_def collect_def init_state_def
      PtrDetails_ctor_def upRefCount_def downRefCount_def zeroRefCount_def)

text \<open>
  C4, amended. A handle over \<open>NULL\<close> is counted like a handle over any other
  address: constructing one appends a record for \<open>NULL\<close> with count 1 when there is
  none and adds one to the count otherwise; where a record \<open>r\<close> for \<open>NULL\<close>
  exists, copying the handle succeeds and adds one to its count, and destroying the
  handle succeeds, subtracts one from its count, leaves the other records as they were
  and then sweeps.
\<close>

theorem null_handle_is_counted:
  "(addr (snd (Pointer_ctor sz NULL s)) = NULL \<and>
    record_of NULL (refContainer (fst (Pointer_ctor sz NULL s))) =
      Some (case record_of NULL (refContainer s) of
              None \<Rightarrow> \<lparr>refCount = 1, memPtr = NULL, isArray = (0 < sz), arraySize = sz\<rparr>
            | Some r \<Rightarrow> r\<lparr>refCount := refCount r + 1\<rparr>)) \<and>
   (addr h = NULL \<and> record_of NULL (refContainer s) = Some r \<longrightarrow>
      (\<exists>s'. Pointer_copy h s = Inr (s', h) \<and>
            record_of NULL (refContainer s') = Some (r\<lparr>refCount := refCount r + 1\<rparr>)) \<and>
      (\<exists>s1. Pointer_dtor h s = Inr (fst (collect s1)) \<and>
            record_of NULL (refContainer s1) = Some (r\<lparr>refCount := refCount r - 1\<rparr>) \<and>
            (\<forall>a. a \<noteq> NULL \<longrightarrow> record_of a (refContainer s1) = record_of a (refContainer s)) \<and>
            map memPtr (refContainer s1) = map memPtr (refContainer s) \<and>
            freed s1 = freed s))"
proof -
  let ?rc = "refContainer s"
  have ctor: "addr (snd (Pointer_ctor sz NULL s)) = NULL \<and>
    record_of NULL (refContainer (fst (Pointer_ctor sz NULL s))) =
      Some (case record_of NULL ?rc of
              None \<Rightarrow> \<lparr>refCount = 1, memPtr = NULL, isArray = (0 < sz), arraySize = sz\<rparr>
            | Some r \<Rightarrow> r\<lparr>refCount := refCount r + 1\<rparr>)"
    using record_of_register [of NULL NULL ?rc sz]
    by (simp add: Pointer_ctor_refContainer Pointer_ctor_rest PtrDetails_ctor_def upRefCount_def
        split: option.splits)
  have rest: "(\<exists>s'. Pointer_copy h s = Inr (s', h) \<and>
            record_of NULL (refContainer s') = Some (r\<lparr>refCount := refCount r + 1\<rparr>)) \<and>
      (\<exists>s1. Pointer_dtor h s = Inr (fst (collect s1)) \<and>
            record_of NULL (refContainer s1) = Some (r\<lparr>refCount := refCount r - 1\<rparr>) \<and>
            (\<forall>a. a \<noteq> NULL \<longrightarrow> record_of a (refContainer s1) = record_of a ?rc) \<and>
            map memPtr (refContainer s1) = map memPtr ?rc \<and>
            freed s1 = freed s)"
    if h: "addr h = NULL" and r: "record_of NULL ?rc = Some r"
  proof -
    have found: "findPtrInfo (addr h) ?rc \<noteq> length ?rc"
      using h r by (simp add: record_of_def split: if_splits)
    have nth: "?rc ! findPtrInfo NULL ?rc = r"
      using r by (simp add: record_of_def split: if_splits)
    have up: "record_of NULL (?rc[findPtrInfo NULL ?rc := upRefCount (?rc ! findPtrInfo NULL ?rc)])
        = Some (r\<lparr>refCount := refCount r + 1\<rparr>)"
      using update_found_same [of NULL ?rc upRefCount] found h nth
      by (simp add: upRefCount_def)
    have down: "record_of NULL (?rc[findPtrInfo NULL ?rc := downRefCount (?rc ! findPtrInfo NULL ?rc)])
        = Some (r\<lparr>refCount := refCount r - 1\<rparr>)"
      using update_found_same [of NULL ?rc downRefCount] found h nth
      by (simp add: downRefCount_def)
    have other: "\<forall>a. a \<noteq> NULL \<longrightarrow>
        record_of a (?rc[findPtrInfo NULL ?rc := downRefCount (?rc ! findPtrInfo NULL ?rc)])
        = record_of a ?rc"
      using update_found_other [of _ NULL downRefCount ?rc] by simp
    have mp: "map memPtr (?rc[findPtrInfo NULL ?rc := downRefCount (?rc ! findPtrInfo NULL ?rc)])
        = map memPtr ?rc"
      by (simp add: update_memPtr)
    show ?thesis
    proof
      show "\<exists>s'. Pointer_copy h s = Inr (s', h) \<and>
            record_of NULL (refContainer s') = Some (r\<lparr>refCount := refCount r + 1\<rparr>)"
        using Pointer_copy_found [OF found] up h by simp
      show "\<exists>s1. Pointer_dtor h s = Inr (fst (collect s1)) \<and>
            record_of NULL (refContainer s1) = Some (r\<lparr>refCount := refCount r - 1\<rparr>) \<and>
            (\<forall>a. a \<noteq> NULL \<longrightarrow> record_of a (refContainer s1) = record_of a ?rc) \<and>
            map memPtr (refContainer s1) = map memPtr ?rc \<and>
            freed s1 = freed s"
        apply (rule exI [of _ "s\<lparr>refContainer := ?rc[findPtrInfo NULL ?rc :=
            downRefCount (?rc ! findPtrInfo NULL ?rc)]\<rparr>"])
        using Pointer_dtor_found [OF found] down other mp h by simp
    qed
  qed
  from ctor rest show ?thesis by blast
qed

theorem null_handle_is_counted_witness:
  "addr \<lparr>addr = NULL, isArrayP = False, arraySizeP = 0\<rparr> = NULL \<and>
   record_of NULL [\<lparr>refCount = 1, memPtr = NULL, isArray = False, arraySize = 0\<rparr>] =
     Some \<lparr>refCount = 1, memPtr = NULL, isArray = False, arraySize = 0\<rparr> \<and>
   Pointer_copy \<lparr>addr = NULL, isArrayP = False, arraySizeP = 0\<rparr>
     \<lparr>refContainer = [\<lparr>refCount = 1, memPtr = NULL, isArray = False, arraySize = 0\<rparr>],
      first = False, atexit_calls = 1, freed = []\<rparr> =
     Inr (\<lparr>refContainer = [\<lparr>refCount = 2, memPtr = NULL, isArray = False, arraySize = 0\<rparr>],
           first = False, atexit_calls = 1, freed = []\<rparr>,
          \<lparr>addr = NULL, isArrayP = False, arraySizeP = 0\<rparr>) \<and>
   Pointer_dtor \<lparr>addr = NULL, isArrayP = False, arraySizeP = 0\<rparr>
     \<lparr>refContainer = [\<lparr>refCount = 1, memPtr = NULL, isArray = False, arraySize = 0\<rparr>],
      first = False, atexit_calls = 1, freed = []\<rparr> =
     Inr \<lparr>refContainer = [], first = False, atexit_calls = 1, freed = [DeleteScalar NULL]\<rparr>"
  using null_handle_is_counted
    [where sz = 0
       and s = "\<lparr>refContainer = [\<lparr>refCount = 1, memPtr = NULL, isArray = False, arraySize = 0\<rparr>],
                first = False, atexit_calls = 1, freed = []\<rparr>"
       and h = "\<lparr>addr = NULL, isArrayP = False, arraySizeP = 0\<rparr>"
       and r = "\<lparr>refCount = 1, memPtr = NULL, isArray = False, arraySize = 0\<rparr>"]
  by (simp add: record_of_def Pointer_copy_def Pointer_dtor_def collect_def
      upRefCount_def downRefCount_def zeroRefCount_def Let_def)

section \<open>The no-argument constructor\<close>

text \<open>
  C10. \<open>Pointer()\<close> assigns none of the members of the object it constructs: the
  object holds afterwards what its storage held before, whatever that was. Its body
  constructs a temporary over \<open>NULL\<close>, which registers \<open>NULL\<close>, and destroys it,
  which always finds that record, subtracts one from its count and sweeps: the list is
  left with the records whose count was not zero, every record whose count was zero has
  been deallocated, and \<open>NULL\<close> itself has been passed to \<open>delete\<close> (or
  \<open>delete[]\<close>) when it had no record before.
\<close>

theorem default_ctor_leaves_fields_unset:
  "\<exists>s'. Pointer_default sz this s = Inr (s', this) \<and>
     addr (snd (Pointer_ctor sz NULL s)) = NULL \<and>
     record_of NULL (refContainer (fst (Pointer_ctor sz NULL s))) \<noteq> None \<and>
     refContainer s' = filter (\<lambda>p. refCount p \<noteq> 0) (refContainer s) \<and>
     freed s' =
       freed s @ map dealloc_of (filter (\<lambda>p. refCount p = 0) (refContainer s)) @
         (case record_of NULL (refContainer s) of
            None \<Rightarrow> [if 0 < sz then DeleteArray NULL else DeleteScalar NULL]
          | Some r \<Rightarrow> [])"
proof -
  obtain s1 tmp where c: "Pointer_ctor sz NULL s = (s1, tmp)" by (cases "Pointer_ctor sz NULL s")
  have d: "Pointer_dtor tmp s1 = Inr (fst (collect
       (s\<lparr>first := False,
          atexit_calls := (if first s then Suc (atexit_calls s) else atexit_calls s),
          refContainer :=
            (if findPtrInfo NULL (refContainer s) = length (refContainer s)
             then refContainer s @ [\<lparr>refCount = 0, memPtr = NULL, isArray = (0 < sz), arraySize = sz\<rparr>]
             else refContainer s)\<rparr>)))"
    using ctor_then_dtor [of sz NULL s] c by simp
  have reg: "record_of NULL (refContainer s1) \<noteq> None"
    using record_of_register [of NULL NULL "refContainer s" sz] Pointer_ctor_refContainer [of sz NULL s] c
    by simp
  have a: "addr tmp = NULL" using Pointer_ctor_rest(4) [of sz NULL s] c by simp
  show ?thesis
    unfolding Pointer_default_def c using d reg a
    by (simp add: collect_eq record_of_def dealloc_of_def)
qed

theorem default_ctor_leaves_fields_unset_witness:
  "Pointer_default 0 \<lparr>addr = 4, isArrayP = True, arraySizeP = 9\<rparr> init_state =
     Inr (\<lparr>refContainer = [], first = False, atexit_calls = 1, freed = [DeleteScalar NULL]\<rparr>,
          \<lparr>addr = 4, isArrayP = True, arraySizeP = 9\<rparr>)"
  using default_ctor_leaves_fields_unset
    [where sz = 0 and this = "\<lparr>addr = 4, isArrayP = True, arraySizeP = 9\<rparr>"
       and s = init_state]
  by (simp add: init_state_def Pointer_default_def Pointer_ctor_def Pointer_dtor_def
      collect_def PtrDetails_ctor_def downRefCount_def zeroRefCount_def Let_def)

section \<open>Assignment of a raw address\<close>



section \<open>Assignment of a handle\<close>

lemma assign_handle_same_addr: "addr h = addr rv \<Longrightarrow> assign_handle h rv s = Inr (s, h)"
  by (simp add: assign_handle_def)

lemma assign_handle_found:
  assumes ne: "addr h \<noteq> addr rv"
    and a: "findPtrInfo (addr h) (refContainer s) \<noteq> length (refContainer s)"
    and b: "findPtrInfo (addr rv) (refContainer s) \<noteq> length (refContainer s)"
  shows "assign_handle h rv s =
    Inr (s\<lparr>refContainer :=
           ((refContainer s)[findPtrInfo (addr h) (refContainer s) :=
               downRefCount (refContainer s ! findPtrInfo (addr h) (refContainer s))])
             [findPtrInfo (addr rv) (refContainer s) :=
               upRefCount (((refContainer s)[findPtrInfo (addr h) (refContainer s) :=
                 downRefCount (refContainer s ! findPtrInfo (addr h) (refContainer s))])
                   ! findPtrInfo (addr rv) (refContainer s))]\<rparr>, rv)"
proof -
  let ?rc = "refContainer s"
  let ?rc1 = "?rc[findPtrInfo (addr h) ?rc := downRefCount (?rc ! findPtrInfo (addr h) ?rc)]"
  have f: "findPtrInfo (addr rv) ?rc1 = findPtrInfo (addr rv) ?rc"
    by (rule findPtrInfo_update) simp
  show ?thesis
    using ne a b by (simp add: assign_handle_def Let_def f)
qed

lemma assign_handle_Inr:
  assumes "assign_handle h rv s = Inr (s', h')"
  shows "freed s' = freed s \<and> map memPtr (refContainer s') = map memPtr (refContainer s) \<and>
         first s' = first s \<and> atexit_calls s' = atexit_calls s"
proof (cases "addr h = addr rv")
  case True
  with assms show ?thesis by (simp add: assign_handle_def)
next
  case False
  let ?rc = "refContainer s"
  let ?rc1 = "?rc[findPtrInfo (addr h) ?rc := downRefCount (?rc ! findPtrInfo (addr h) ?rc)]"
  have f: "findPtrInfo (addr rv) ?rc1 = findPtrInfo (addr rv) ?rc"
    by (rule findPtrInfo_update) simp
  have a: "findPtrInfo (addr h) ?rc \<noteq> length ?rc"
    using assms False by (simp add: assign_handle_def Let_def split: if_splits)
  have b: "findPtrInfo (addr rv) ?rc \<noteq> length ?rc"
    using assms False a f by (simp add: assign_handle_def Let_def split: if_splits)
  have "(Inr (s', h') :: error + gc_state \<times> Pointer) =
      Inr (s\<lparr>refContainer := ?rc1[findPtrInfo (addr rv) ?rc :=
               upRefCount (?rc1 ! findPtrInfo (addr rv) ?rc)]\<rparr>, rv)"
    using assms assign_handle_found [OF False a b] by (simp only:)
  then have "s' = s\<lparr>refContainer := ?rc1[findPtrInfo (addr rv) ?rc :=
               upRefCount (?rc1 ! findPtrInfo (addr rv) ?rc)]\<rparr>"
    by blast
  then show ?thesis by (simp add: update_memPtr)
qed

text \<open>
  C8. \<open>operator=(Pointer &)\<close> changes nothing when it is given the handle itself, and
  more generally when both handles hold the same address (the test of the source compares
  the addresses). When the addresses differ and both have a record, it subtracts one from
  the count of the record of the handle's own address, adds one to the count of the
  record of the other handle's address, leaves every other record as it was, and the
  handle becomes a copy of the other one. Whenever it returns, no deallocation has been
  issued and the list holds the same addresses as before: it does not sweep.
\<close>

theorem assign_handle_effect:
  "assign_handle h h s = Inr (s, h) \<and>
   (addr h = addr rv \<longrightarrow> assign_handle h rv s = Inr (s, h)) \<and>
   (addr h \<noteq> addr rv \<and> record_of (addr h) (refContainer s) = Some ra \<and>
    record_of (addr rv) (refContainer s) = Some rb \<longrightarrow>
      (\<exists>s'. assign_handle h rv s = Inr (s', rv) \<and>
         record_of (addr h) (refContainer s') = Some (ra\<lparr>refCount := refCount ra - 1\<rparr>) \<and>
         record_of (addr rv) (refContainer s') = Some (rb\<lparr>refCount := refCount rb + 1\<rparr>) \<and>
         (\<forall>a. a \<noteq> addr h \<and> a \<noteq> addr rv \<longrightarrow>
            record_of a (refContainer s') = record_of a (refContainer s)))) \<and>
   (\<forall>s' h'. assign_handle h rv s = Inr (s', h') \<longrightarrow>
      freed s' = freed s \<and> map memPtr (refContainer s') = map memPtr (refContainer s))"
proof -
  let ?rc = "refContainer s"
  let ?A = "addr h"
  let ?B = "addr rv"
  let ?rc1 = "?rc[findPtrInfo ?A ?rc := downRefCount (?rc ! findPtrInfo ?A ?rc)]"
  let ?rc2 = "?rc1[findPtrInfo ?B ?rc := upRefCount (?rc1 ! findPtrInfo ?B ?rc)]"
  have main: "\<exists>s'. assign_handle h rv s = Inr (s', rv) \<and>
         record_of ?A (refContainer s') = Some (ra\<lparr>refCount := refCount ra - 1\<rparr>) \<and>
         record_of ?B (refContainer s') = Some (rb\<lparr>refCount := refCount rb + 1\<rparr>) \<and>
         (\<forall>a. a \<noteq> ?A \<and> a \<noteq> ?B \<longrightarrow> record_of a (refContainer s') = record_of a ?rc)"
    if ne: "?A \<noteq> ?B" and ra: "record_of ?A ?rc = Some ra" and rb: "record_of ?B ?rc = Some rb"
  proof -
    have a: "findPtrInfo ?A ?rc \<noteq> length ?rc" and na: "?rc ! findPtrInfo ?A ?rc = ra"
      using ra by (simp_all add: record_of_def split: if_splits)
    have b: "findPtrInfo ?B ?rc \<noteq> length ?rc" and nb: "?rc ! findPtrInfo ?B ?rc = rb"
      using rb by (simp_all add: record_of_def split: if_splits)
    have f: "findPtrInfo ?B ?rc1 = findPtrInfo ?B ?rc"
      by (rule findPtrInfo_update) simp
    have b1: "findPtrInfo ?B ?rc1 \<noteq> length ?rc1" using b f by simp
    have r1A: "record_of ?A ?rc1 = Some (downRefCount ra)"
      using update_found_same [of ?A ?rc downRefCount] a na by simp
    have r1o: "\<And>x. x \<noteq> ?A \<Longrightarrow> record_of x ?rc1 = record_of x ?rc"
      using update_found_other [of _ ?A downRefCount ?rc] by simp
    have nb1: "?rc1 ! findPtrInfo ?B ?rc1 = rb"
      using r1o [of ?B] ne rb b1 by (simp add: record_of_def)
    have r2B: "record_of ?B ?rc2 = Some (upRefCount rb)"
      using update_found_same [of ?B ?rc1 upRefCount] b1 nb1 f by simp
    have r2o: "\<And>x. x \<noteq> ?B \<Longrightarrow> record_of x ?rc2 = record_of x ?rc1"
      using update_found_other [of _ ?B upRefCount ?rc1] f by simp
    have "assign_handle h rv s = Inr (s\<lparr>refContainer := ?rc2\<rparr>, rv)"
      by (rule assign_handle_found [OF ne a b])
    moreover have "record_of ?A ?rc2 = Some (ra\<lparr>refCount := refCount ra - 1\<rparr>)"
      using r2o [of ?A] ne r1A by (simp add: downRefCount_def)
    moreover have "record_of ?B ?rc2 = Some (rb\<lparr>refCount := refCount rb + 1\<rparr>)"
      using r2B by (simp add: upRefCount_def)
    moreover have "\<forall>a. a \<noteq> ?A \<and> a \<noteq> ?B \<longrightarrow> record_of a ?rc2 = record_of a ?rc"
      using r2o r1o by simp
    ultimately show ?thesis by simp
  qed
  have nosweep: "\<forall>s' h'. assign_handle h rv s = Inr (s', h') \<longrightarrow>
      freed s' = freed s \<and> map memPtr (refContainer s') = map memPtr ?rc"
    using assign_handle_Inr [of h rv s] by blast
  show ?thesis
    using main nosweep assign_handle_same_addr [of h rv s] assign_handle_same_addr [of h h s]
    by blast
qed

theorem assign_handle_effect_witness:
  "addr \<lparr>addr = 4, isArrayP = False, arraySizeP = 0\<rparr> \<noteq>
     addr \<lparr>addr = 8, isArrayP = False, arraySizeP = 0\<rparr> \<and>
   assign_handle \<lparr>addr = 4, isArrayP = False, arraySizeP = 0\<rparr>
     \<lparr>addr = 8, isArrayP = False, arraySizeP = 0\<rparr>
     \<lparr>refContainer = [\<lparr>refCount = 1, memPtr = 4, isArray = False, arraySize = 0\<rparr>,
                      \<lparr>refCount = 1, memPtr = 8, isArray = False, arraySize = 0\<rparr>],
      first = False, atexit_calls = 1, freed = []\<rparr> =
     Inr (\<lparr>refContainer = [\<lparr>refCount = 0, memPtr = 4, isArray = False, arraySize = 0\<rparr>,
                           \<lparr>refCount = 2, memPtr = 8, isArray = False, arraySize = 0\<rparr>],
           first = False, atexit_calls = 1, freed = []\<rparr>,
          \<lparr>addr = 8, isArrayP = False, arraySizeP = 0\<rparr>)"
  using assign_handle_effect
    [where h = "\<lparr>addr = 4, isArrayP = False, arraySizeP = 0\<rparr>"
       and s = "\<lparr>refContainer = [\<lparr>refCount = 1, memPtr = 4, isArray = False, arraySize = 0\<rparr>,
                                 \<lparr>refCount = 1, memPtr = 8, isArray = False, arraySize = 0\<rparr>],
                first = False, atexit_calls = 1, freed = []\<rparr>"
       and rv = "\<lparr>addr = 8, isArrayP = False, arraySizeP = 0\<rparr>"
       and ra = "\<lparr>refCount = 1, memPtr = 4, isArray = False, arraySize = 0\<rparr>"
       and rb = "\<lparr>refCount = 1, memPtr = 8, isArray = False, arraySize = 0\<rparr>"]
  by (simp add: assign_handle_def record_of_def upRefCount_def downRefCount_def Let_def)

section \<open>An address without a record\<close>

text \<open>
  C3 does not hold of the code. The copy constructor, the destructor and
  \<open>operator=(Pointer &)\<close> take the iterator that \<open>findPtrInfo\<close> returns and call
  \<open>upRefCount\<close> or \<open>downRefCount\<close> through it without comparing it with
  \<open>refContainer.end()\<close>: when the address has no record they dereference the end
  iterator, which is no explicit error and no abort. A program reaches this with public
  members only: a handle made by the no-argument constructor and then destroyed, or
  copied, or assigned to from a handle over another address, whatever its storage held.
\<close>

theorem absent_record_dereferences_end:
  "(record_of (addr h) (refContainer s) = None \<longrightarrow>
      Pointer_copy h s = Inl EndIteratorDeref \<and> Pointer_dtor h s = Inl EndIteratorDeref) \<and>
   (addr h \<noteq> addr rv \<and>
    (record_of (addr h) (refContainer s) = None \<or> record_of (addr rv) (refContainer s) = None) \<longrightarrow>
      assign_handle h rv s = Inl EndIteratorDeref) \<and>
   run n [DefaultConstruct this, Destruct 0] init_sys = Inl EndIteratorDeref \<and>
   run n [DefaultConstruct this, CopyConstruct 0] init_sys = Inl EndIteratorDeref \<and>
   (addr this \<noteq> t \<longrightarrow>
      run n [Construct t, DefaultConstruct this, AssignHandle 1 0] init_sys =
        Inl EndIteratorDeref)"
proof -
  let ?rc = "refContainer s"
  have copy_dtor: "Pointer_copy h s = Inl EndIteratorDeref \<and> Pointer_dtor h s = Inl EndIteratorDeref"
    if "record_of (addr h) ?rc = None"
    using that by (simp add: record_of_def Pointer_copy_def Pointer_dtor_def Let_def split: if_splits)
  have assign: "assign_handle h rv s = Inl EndIteratorDeref"
    if ne: "addr h \<noteq> addr rv"
      and ab: "record_of (addr h) ?rc = None \<or> record_of (addr rv) ?rc = None"
  proof (cases "findPtrInfo (addr h) ?rc = length ?rc")
    case True
    with ne show ?thesis by (simp add: assign_handle_def Let_def)
  next
    case False
    with ab have b: "findPtrInfo (addr rv) ?rc = length ?rc"
      by (simp add: record_of_def split: if_splits)
    have "findPtrInfo (addr rv)
        (?rc[findPtrInfo (addr h) ?rc := downRefCount (?rc ! findPtrInfo (addr h) ?rc)]) =
        findPtrInfo (addr rv) ?rc"
      by (rule findPtrInfo_update) simp
    with ne False b show ?thesis by (simp add: assign_handle_def Let_def)
  qed
  obtain s1 where d: "Pointer_default n this init_state = Inr (s1, this)"
    and rc1: "refContainer s1 = []"
    by (simp add: Pointer_default_def Pointer_ctor_def Pointer_dtor_def collect_def
        init_state_def PtrDetails_ctor_def downRefCount_def zeroRefCount_def Let_def)
  have r1: "run n [DefaultConstruct this, Destruct 0] init_sys = Inl EndIteratorDeref"
    using d rc1 by (simp add: init_sys_def Pointer_dtor_def Let_def)
  have r2: "run n [DefaultConstruct this, CopyConstruct 0] init_sys = Inl EndIteratorDeref"
    using d rc1 by (simp add: init_sys_def Pointer_copy_def Let_def)
  have r3: "run n [Construct t, DefaultConstruct this, AssignHandle 1 0] init_sys =
        Inl EndIteratorDeref" if ne: "addr this \<noteq> t"
  proof -
    obtain s2 h2 where c: "Pointer_ctor n t init_state = (s2, h2)"
      and h2: "addr h2 = t"
      and rc2: "refContainer s2 = [PtrDetails_ctor t n]"
      by (simp add: Pointer_ctor_def init_state_def Let_def)
    obtain s3 tmp where c3: "Pointer_ctor n NULL s2 = (s3, tmp)"
      by (cases "Pointer_ctor n NULL s2")
    have "Pointer_dtor (snd (Pointer_ctor n NULL s2)) (fst (Pointer_ctor n NULL s2)) =
        Inr (fst (collect
          (s2\<lparr>first := False,
              atexit_calls := (if first s2 then Suc (atexit_calls s2) else atexit_calls s2),
              refContainer :=
                (if findPtrInfo NULL (refContainer s2) = length (refContainer s2)
                 then refContainer s2 @
                   [\<lparr>refCount = 0, memPtr = NULL, isArray = (0 < n), arraySize = n\<rparr>]
                 else refContainer s2)\<rparr>)))"
      by (rule ctor_then_dtor)
    then obtain s4 where d4: "Pointer_dtor tmp s3 = Inr s4"
      and rc4: "refContainer s4 = [PtrDetails_ctor t n]"
      using c3 rc2 by (auto simp: collect_eq PtrDetails_ctor_def)
    have pd: "Pointer_default n this s2 = Inr (s4, this)"
      using c3 d4 by (simp add: Pointer_default_def)
    have "findPtrInfo (addr this) (refContainer s4) = length (refContainer s4)"
      using ne rc4 by (simp add: PtrDetails_ctor_def)
    then have "assign_handle this h2 s4 = Inl EndIteratorDeref"
      using ne h2 by (simp add: assign_handle_def Let_def)
    then show ?thesis
      using c pd by (simp add: init_sys_def)
  qed
  from copy_dtor assign r1 r2 r3 show ?thesis by blast
qed

theorem absent_record_dereferences_end_witness:
  "run 0 [DefaultConstruct \<lparr>addr = 4, isArrayP = False, arraySizeP = 0\<rparr>] init_sys =
     Inr \<lparr>gc = \<lparr>refContainer = [], first = False, atexit_calls = 1,
                freed = [DeleteScalar NULL]\<rparr>,
          live = [\<lparr>addr = 4, isArrayP = False, arraySizeP = 0\<rparr>]\<rparr> \<and>
   record_of 4 [] = None \<and>
   Pointer_dtor \<lparr>addr = 4, isArrayP = False, arraySizeP = 0\<rparr>
     \<lparr>refContainer = [], first = False, atexit_calls = 1, freed = [DeleteScalar NULL]\<rparr> =
     Inl EndIteratorDeref \<and>
   Pointer_copy \<lparr>addr = 4, isArrayP = False, arraySizeP = 0\<rparr>
     \<lparr>refContainer = [], first = False, atexit_calls = 1, freed = [DeleteScalar NULL]\<rparr> =
     Inl EndIteratorDeref \<and>
   run 0 [DefaultConstruct \<lparr>addr = 4, isArrayP = False, arraySizeP = 0\<rparr>, Destruct 0] init_sys =
     Inl EndIteratorDeref \<and>
   run 0 [DefaultConstruct \<lparr>addr = 4, isArrayP = False, arraySizeP = 0\<rparr>, CopyConstruct 0]
     init_sys = Inl EndIteratorDeref \<and>
   addr \<lparr>addr = 4, isArrayP = False, arraySizeP = 0\<rparr> \<noteq> 8 \<and>
   run 0 [Construct 8, DefaultConstruct \<lparr>addr = 4, isArrayP = False, arraySizeP = 0\<rparr>,
          AssignHandle 1 0] init_sys = Inl EndIteratorDeref"
proof -
  let ?g = "\<lparr>addr = 4, isArrayP = False, arraySizeP = 0\<rparr>"
  let ?s = "\<lparr>refContainer = [], first = False, atexit_calls = 1, freed = [DeleteScalar NULL]\<rparr>"
  have r0: "run 0 [DefaultConstruct ?g] init_sys = Inr \<lparr>gc = ?s, live = [?g]\<rparr>"
    by (simp add: init_sys_def init_state_def Pointer_default_def Pointer_ctor_def
        Pointer_dtor_def collect_def PtrDetails_ctor_def downRefCount_def zeroRefCount_def Let_def)
  have a: "record_of (addr ?g) (refContainer ?s) = None" by (simp add: record_of_def)
  have ne: "addr ?g \<noteq> 8" by simp
  note th = absent_record_dereferences_end
    [where h = ?g and s = ?s and rv = ?g and n = 0 and this = ?g and t = 8]
  from th a have c1: "Pointer_dtor ?g ?s = Inl EndIteratorDeref" by blast
  from th a have c2: "Pointer_copy ?g ?s = Inl EndIteratorDeref" by blast
  from th have c3: "run 0 [DefaultConstruct ?g, Destruct 0] init_sys = Inl EndIteratorDeref"
    by blast
  from th have c4: "run 0 [DefaultConstruct ?g, CopyConstruct 0] init_sys = Inl EndIteratorDeref"
    by blast
  from th ne have c5: "run 0 [Construct 8, DefaultConstruct ?g, AssignHandle 1 0] init_sys =
      Inl EndIteratorDeref"
    by blast
  have a': "record_of 4 [] = None" by (simp add: record_of_def)
  show ?thesis by (intro conjI r0 a' c1 c2 c3 c4 ne c5)
qed

section \<open>One record for each address\<close>

lemma distinct_register:
  assumes "distinct (map memPtr rc)"
  shows "distinct (map memPtr (if findPtrInfo t rc = length rc then rc @ [PtrDetails_ctor t n]
                else rc[findPtrInfo t rc := upRefCount (rc ! findPtrInfo t rc)]))"
  unfolding memPtr_register using assms by (auto simp: findPtrInfo_end_iff)

lemma distinct_update:
  "(\<And>r. memPtr (f r) = memPtr r) \<Longrightarrow> distinct (map memPtr rc) \<Longrightarrow>
   distinct (map memPtr (rc[i := f (rc ! i)]))"
  by (simp add: update_memPtr)

lemma Pointer_ctor_distinct:
  "distinct (map memPtr (refContainer s)) \<Longrightarrow>
   distinct (map memPtr (refContainer (fst (Pointer_ctor n t s))))"
  unfolding Pointer_ctor_refContainer by (rule distinct_register)

lemma Pointer_copy_distinct:
  assumes "distinct (map memPtr (refContainer s))" "Pointer_copy ob s = Inr (s', h)"
  shows "distinct (map memPtr (refContainer s'))"
proof -
  have "refContainer s' = (refContainer s)[findPtrInfo (addr ob) (refContainer s) :=
      upRefCount (refContainer s ! findPtrInfo (addr ob) (refContainer s))]"
    using assms(2) by (auto simp: Pointer_copy_def Let_def split: if_splits)
  then show ?thesis using assms(1) by (simp add: distinct_update)
qed

lemma collect_distinct:
  "distinct (map memPtr (refContainer s)) \<Longrightarrow>
   distinct (map memPtr (refContainer (fst (collect s))))"
  by (simp add: collect_eq distinct_map_filter)

lemma Pointer_dtor_distinct:
  assumes "distinct (map memPtr (refContainer s))" "Pointer_dtor h s = Inr s'"
  shows "distinct (map memPtr (refContainer s'))"
proof -
  have "s' = fst (collect (s\<lparr>refContainer := (refContainer s)[findPtrInfo (addr h) (refContainer s) :=
            downRefCount (refContainer s ! findPtrInfo (addr h) (refContainer s))]\<rparr>))"
    using assms(2) by (auto simp: Pointer_dtor_def Let_def split: if_splits)
  then show ?thesis using assms(1) by (simp add: collect_distinct distinct_update)
qed

lemma assign_raw_distinct:
  assumes "distinct (map memPtr (refContainer s))"
  shows "distinct (map memPtr (refContainer (fst (assign_raw n h t s))))"
proof -
  let ?rc = "refContainer s"
  let ?rc1 = "if findPtrInfo (addr h) ?rc \<noteq> length ?rc
              then ?rc[findPtrInfo (addr h) ?rc := downRefCount (?rc ! findPtrInfo (addr h) ?rc)]
              else ?rc"
  have d1: "distinct (map memPtr ?rc1)" unfolding memPtr_release by (rule assms)
  have "refContainer (fst (assign_raw n h t s)) =
      (if findPtrInfo t ?rc1 = length ?rc1 then ?rc1 @ [PtrDetails_ctor t n]
       else ?rc1[findPtrInfo t ?rc1 := upRefCount (?rc1 ! findPtrInfo t ?rc1)])"
    by (simp add: assign_raw_def Let_def)
  then show ?thesis using distinct_register [OF d1] by (simp only:)
qed

lemma assign_handle_distinct:
  assumes "distinct (map memPtr (refContainer s))" "assign_handle h rv s = Inr (s', h')"
  shows "distinct (map memPtr (refContainer s'))"
  using assign_handle_Inr [OF assms(2)] assms(1) by simp

lemma Pointer_default_distinct:
  assumes "distinct (map memPtr (refContainer s))" "Pointer_default n this s = Inr (s', h)"
  shows "distinct (map memPtr (refContainer s'))"
proof -
  obtain s1 tmp where c: "Pointer_ctor n NULL s = (s1, tmp)" by (cases "Pointer_ctor n NULL s")
  have d1: "distinct (map memPtr (refContainer s1))"
    using Pointer_ctor_distinct [OF assms(1), of n NULL] c by simp
  have "Pointer_dtor tmp s1 = Inr s'"
    using assms(2) c by (simp add: Pointer_default_def split: sum.splits)
  then show ?thesis using d1 Pointer_dtor_distinct by blast
qed

lemma exec_distinct:
  assumes d: "distinct (map memPtr (refContainer (gc \<sigma>)))" and ex: "exec n x \<sigma> = Inr \<sigma>'"
  shows "distinct (map memPtr (refContainer (gc \<sigma>')))"
proof (cases x)
  case (Construct t)
  with ex have "gc \<sigma>' = fst (Pointer_ctor n t (gc \<sigma>))" by (auto split: prod.splits)
  then show ?thesis using Pointer_ctor_distinct [OF d] by simp
next
  case (CopyConstruct i)
  with ex obtain h where "Pointer_copy (live \<sigma> ! i) (gc \<sigma>) = Inr (gc \<sigma>', h)"
    by (auto split: if_splits sum.splits)
  then show ?thesis using Pointer_copy_distinct [OF d] by blast
next
  case (Destruct i)
  with ex have "Pointer_dtor (live \<sigma> ! i) (gc \<sigma>) = Inr (gc \<sigma>')"
    by (auto split: if_splits sum.splits)
  then show ?thesis using Pointer_dtor_distinct [OF d] by blast
next
  case (AssignRaw i t)
  with ex have "gc \<sigma>' = fst (assign_raw n (live \<sigma> ! i) t (gc \<sigma>))"
    by (auto split: if_splits prod.splits)
  then show ?thesis using assign_raw_distinct [OF d] by simp
next
  case (AssignHandle i j)
  with ex obtain h where "assign_handle (live \<sigma> ! i) (live \<sigma> ! j) (gc \<sigma>) = Inr (gc \<sigma>', h)"
    by (auto split: if_splits sum.splits)
  then show ?thesis using assign_handle_distinct [OF d] by blast
next
  case Collect
  with ex have "gc \<sigma>' = fst (collect (gc \<sigma>))" by auto
  then show ?thesis using collect_distinct [OF d] by simp
next
  case (DefaultConstruct this)
  with ex obtain h where "Pointer_default n this (gc \<sigma>) = Inr (gc \<sigma>', h)"
    by (auto split: sum.splits)
  then show ?thesis using Pointer_default_distinct [OF d] by blast
next
  case Shutdown
  with ex have "gc \<sigma>' = shutdown (gc \<sigma>)" by auto
  then show ?thesis using shutdown_cases [of "gc \<sigma>"] d by auto
qed

lemma run_distinct:
  "distinct (map memPtr (refContainer (gc \<sigma>))) \<Longrightarrow> run n xs \<sigma> = Inr \<sigma>' \<Longrightarrow>
   distinct (map memPtr (refContainer (gc \<sigma>')))"
proof (induction xs arbitrary: \<sigma>)
  case Nil
  then show ?case by simp
next
  case (Cons x xs)
  from Cons.prems(2) obtain \<sigma>1 where e: "exec n x \<sigma> = Inr \<sigma>1" and r: "run n xs \<sigma>1 = Inr \<sigma>'"
    by (auto split: sum.splits)
  from Cons.IH [OF exec_distinct [OF Cons.prems(1) e] r] show ?case .
qed

text \<open>
  C9. After every program that runs to its end from the initial state, whatever its
  operations (the no-argument constructor and the exit function among them), no two
  records of the list have the same address.
\<close>

theorem one_record_per_address:
  assumes "run n xs init_sys = Inr \<sigma>"
  shows "distinct (map memPtr (refContainer (gc \<sigma>)))"
proof -
  have "distinct (map memPtr (refContainer (gc init_sys)))"
    by (simp add: init_sys_def init_state_def)
  from run_distinct [OF this assms] show ?thesis .
qed

theorem one_record_per_address_witness:
  "run 5 [Construct 4, Shutdown, DefaultConstruct \<lparr>addr = 20, isArrayP = False, arraySizeP = 9\<rparr>,
          AssignRaw 1 8, Construct 8, Construct 12] init_sys =
     Inr \<lparr>gc = \<lparr>refContainer = [\<lparr>refCount = 2, memPtr = 8, isArray = True, arraySize = 5\<rparr>,
                               \<lparr>refCount = 1, memPtr = 12, isArray = True, arraySize = 5\<rparr>],
                first = False, atexit_calls = 1,
                freed = [DeleteArray 4, DeleteArray NULL]\<rparr>,
          live = [\<lparr>addr = 4, isArrayP = True, arraySizeP = 5\<rparr>,
                  \<lparr>addr = 8, isArrayP = True, arraySizeP = 5\<rparr>,
                  \<lparr>addr = 8, isArrayP = True, arraySizeP = 5\<rparr>,
                  \<lparr>addr = 12, isArrayP = True, arraySizeP = 5\<rparr>]\<rparr> \<and>
   distinct (map memPtr [\<lparr>refCount = 2, memPtr = 8, isArray = True, arraySize = 5\<rparr>,
                         \<lparr>refCount = 1, memPtr = 12, isArray = True, arraySize = 5\<rparr>])"
proof -
  let ?xs = "[Construct 4, Shutdown, DefaultConstruct \<lparr>addr = 20, isArrayP = False, arraySizeP = 9\<rparr>,
          AssignRaw 1 8, Construct 8, Construct 12]"
  have r: "run 5 ?xs init_sys =
     Inr \<lparr>gc = \<lparr>refContainer = [\<lparr>refCount = 2, memPtr = 8, isArray = True, arraySize = 5\<rparr>,
                               \<lparr>refCount = 1, memPtr = 12, isArray = True, arraySize = 5\<rparr>],
                first = False, atexit_calls = 1,
                freed = [DeleteArray 4, DeleteArray NULL]\<rparr>,
          live = [\<lparr>addr = 4, isArrayP = True, arraySizeP = 5\<rparr>,
                  \<lparr>addr = 8, isArrayP = True, arraySizeP = 5\<rparr>,
                  \<lparr>addr = 8, isArrayP = True, arraySizeP = 5\<rparr>,
                  \<lparr>addr = 12, isArrayP = True, arraySizeP = 5\<rparr>]\<rparr>"
    by (simp add: init_sys_def init_state_def Pointer_default_def Pointer_ctor_def
        assign_raw_def Pointer_dtor_def collect_def shutdown_def refContainerSize_def
        PtrDetails_ctor_def
        upRefCount_def downRefCount_def zeroRefCount_def Let_def word_sless_alt)
  from one_record_per_address [OF r]
  have d: "distinct (map memPtr [\<lparr>refCount = 2, memPtr = 8, isArray = True, arraySize = 5\<rparr>,
                         \<lparr>refCount = 1, memPtr = 12, isArray = True, arraySize = 5\<rparr>])"
    by simp
  show ?thesis by (intro conjI r d)
qed

section \<open>The counts and the live handles\<close>

lemma update_found_map:
  assumes "distinct (map memPtr rc)" "\<And>r. memPtr (f r) = memPtr r"
  shows "rc[findPtrInfo t rc := f (rc ! findPtrInfo t rc)] =
         map (\<lambda>r. if memPtr r = t then f r else r) rc"
  using assms(1)
proof (induction rc)
  case Nil
  then show ?case by simp
next
  case (Cons p ps)
  show ?case
  proof (cases "memPtr p = t")
    case True
    with Cons.prems have "\<forall>r \<in> set ps. memPtr r \<noteq> t" by (auto simp: image_iff)
    then have "map (\<lambda>r. if memPtr r = t then f r else r) ps = ps"
      by (simp add: map_idI)
    with True show ?thesis by simp
  next
    case False
    with Cons show ?thesis by simp
  qed
qed

lemma unat_up:
  fixes c :: unsigned
  assumes "unat c < n" "n < 2 ^ 32"
  shows "unat (c + 1) = Suc (unat c)"
proof -
  have "unat c + unat (1 :: unsigned) < 2 ^ LENGTH(32)" using assms by simp
  then have "unat (c + 1) = unat c + unat (1 :: unsigned)"
    by (simp only: unat_add_lem)
  then show ?thesis by simp
qed

lemma unat_down:
  fixes c :: unsigned
  assumes "0 < unat c"
  shows "unat (c - 1) = unat c - 1"
proof -
  have "c \<noteq> 0" using assms by auto
  then show ?thesis by (rule unat_minus_one)
qed

lemma counts_ok_found:
  assumes ok: "counts_ok rc M" and t: "t \<in> memPtr ` set rc" and sz: "Suc (size M) < 2 ^ 32"
  shows "counts_ok (rc[findPtrInfo t rc := upRefCount (rc ! findPtrInfo t rc)]) (add_mset t M)"
proof -
  have d: "distinct (map memPtr rc)" using ok by (simp add: counts_ok_def)
  have eq: "rc[findPtrInfo t rc := upRefCount (rc ! findPtrInfo t rc)] =
      map (\<lambda>r. if memPtr r = t then upRefCount r else r) rc"
    by (rule update_found_map [OF d]) simp
  have mp: "map memPtr (map (\<lambda>r. if memPtr r = t then upRefCount r else r) rc) = map memPtr rc"
    by simp
  have cnt: "unat (refCount (if memPtr r = t then upRefCount r else r)) =
      count (add_mset t M) (memPtr (if memPtr r = t then upRefCount r else r))"
    if r: "r \<in> set rc" for r
  proof -
    have c: "unat (refCount r) = count M (memPtr r)" using ok r by (simp add: counts_ok_def)
    have "count M (memPtr r) \<le> size M" by (rule count_le_size)
    then have "unat (refCount r) < Suc (size M)" using c by simp
    then have "unat (refCount r + 1) = Suc (unat (refCount r))" using sz by (rule unat_up)
    then show ?thesis using c by (simp add: upRefCount_def)
  qed
  show ?thesis
    unfolding eq counts_ok_def
  proof (intro conjI)
    show "distinct (map memPtr (map (\<lambda>r. if memPtr r = t then upRefCount r else r) rc))"
      unfolding mp by (rule d)
    show "\<forall>a. a \<in># add_mset t M \<longrightarrow>
        a \<in> memPtr ` set (map (\<lambda>r. if memPtr r = t then upRefCount r else r) rc)"
      using ok t mp by (metis counts_ok_def insert_iff set_map set_mset_add_mset_insert)
    show "\<forall>r\<in>set (map (\<lambda>r. if memPtr r = t then upRefCount r else r) rc).
        unat (refCount r) = count (add_mset t M) (memPtr r)"
    proof
      fix r' assume "r' \<in> set (map (\<lambda>r. if memPtr r = t then upRefCount r else r) rc)"
      then obtain r where r: "r \<in> set rc"
        and r': "r' = (if memPtr r = t then upRefCount r else r)"
        unfolding set_map by (rule imageE)
      show "unat (refCount r') = count (add_mset t M) (memPtr r')"
        unfolding r' by (rule cnt [OF r])
    qed
    show "size (add_mset t M) < 2 ^ 32" using sz by simp
  qed
qed

lemma counts_ok_absent:
  assumes ok: "counts_ok rc M" and t: "t \<notin> memPtr ` set rc" and sz: "Suc (size M) < 2 ^ 32"
  shows "counts_ok (rc @ [PtrDetails_ctor t n]) (add_mset t M)"
proof -
  have nt: "t \<notin># M" using ok t by (auto simp: counts_ok_def)
  then have c0: "count M t = 0" by (simp add: not_in_iff)
  show ?thesis
    unfolding counts_ok_def
  proof (intro conjI)
    show "distinct (map memPtr (rc @ [PtrDetails_ctor t n]))"
      using ok t by (simp add: counts_ok_def PtrDetails_ctor_def)
    show "\<forall>a. a \<in># add_mset t M \<longrightarrow> a \<in> memPtr ` set (rc @ [PtrDetails_ctor t n])"
      using ok by (auto simp: counts_ok_def PtrDetails_ctor_def)
    show "\<forall>r\<in>set (rc @ [PtrDetails_ctor t n]).
        unat (refCount r) = count (add_mset t M) (memPtr r)"
      using ok t c0 by (auto simp: counts_ok_def PtrDetails_ctor_def)
    show "size (add_mset t M) < 2 ^ 32" using sz by simp
  qed
qed

lemma counts_ok_release:
  assumes ok: "counts_ok rc M" and A: "A \<in># M"
  shows "counts_ok (rc[findPtrInfo A rc := downRefCount (rc ! findPtrInfo A rc)]) (M - {#A#})"
proof -
  have d: "distinct (map memPtr rc)" using ok by (simp add: counts_ok_def)
  have eq: "rc[findPtrInfo A rc := downRefCount (rc ! findPtrInfo A rc)] =
      map (\<lambda>r. if memPtr r = A then downRefCount r else r) rc"
    by (rule update_found_map [OF d]) simp
  have mp: "map memPtr (map (\<lambda>r. if memPtr r = A then downRefCount r else r) rc) = map memPtr rc"
    by simp
  have cnt: "unat (refCount (if memPtr r = A then downRefCount r else r)) =
      count (M - {#A#}) (memPtr (if memPtr r = A then downRefCount r else r))"
    if r: "r \<in> set rc" for r
  proof (cases "memPtr r = A")
    case True
    have c: "unat (refCount r) = count M A" using ok r True by (simp add: counts_ok_def)
    have "0 < count M A" using A by simp
    then have "unat (refCount r - 1) = unat (refCount r) - 1" using c by (simp add: unat_down)
    then show ?thesis using c True by (simp add: downRefCount_def)
  next
    case False
    then show ?thesis using ok r by (simp add: counts_ok_def)
  qed
  show ?thesis
    unfolding eq counts_ok_def
  proof (intro conjI)
    show "distinct (map memPtr (map (\<lambda>r. if memPtr r = A then downRefCount r else r) rc))"
      unfolding mp by (rule d)
    show "\<forall>a. a \<in># M - {#A#} \<longrightarrow>
        a \<in> memPtr ` set (map (\<lambda>r. if memPtr r = A then downRefCount r else r) rc)"
      using ok mp by (metis counts_ok_def in_diffD set_map)
    show "\<forall>r\<in>set (map (\<lambda>r. if memPtr r = A then downRefCount r else r) rc).
        unat (refCount r) = count (M - {#A#}) (memPtr r)"
    proof
      fix r' assume "r' \<in> set (map (\<lambda>r. if memPtr r = A then downRefCount r else r) rc)"
      then obtain r where r: "r \<in> set rc"
        and r': "r' = (if memPtr r = A then downRefCount r else r)"
        unfolding set_map by (rule imageE)
      show "unat (refCount r') = count (M - {#A#}) (memPtr r')"
        unfolding r' by (rule cnt [OF r])
    qed
    have "size (M - {#A#}) \<le> size M" by (simp add: size_Diff_singleton_if)
    moreover have "size M < 2 ^ 32" using ok by (simp add: counts_ok_def)
    ultimately show "size (M - {#A#}) < 2 ^ 32" by (rule le_less_trans)
  qed
qed

lemma counts_ok_sweep:
  assumes ok: "counts_ok rc M"
  shows "counts_ok (filter (\<lambda>p. refCount p \<noteq> 0) rc) M"
  unfolding counts_ok_def
proof (intro conjI)
  show "distinct (map memPtr (filter (\<lambda>p. refCount p \<noteq> 0) rc))"
    using ok by (simp add: counts_ok_def distinct_map_filter)
  show "\<forall>a. a \<in># M \<longrightarrow> a \<in> memPtr ` set (filter (\<lambda>p. refCount p \<noteq> 0) rc)"
  proof (intro allI impI)
    fix a assume a: "a \<in># M"
    then obtain r where r: "r \<in> set rc" "memPtr r = a" using ok by (auto simp: counts_ok_def)
    then have "unat (refCount r) = count M a" using ok by (simp add: counts_ok_def)
    moreover have "0 < count M a" using a by simp
    ultimately have "0 < unat (refCount r)" by simp
    then have "refCount r \<noteq> 0" by auto
    with r show "a \<in> memPtr ` set (filter (\<lambda>p. refCount p \<noteq> 0) rc)" by auto
  qed
  show "\<forall>r\<in>set (filter (\<lambda>p. refCount p \<noteq> 0) rc). unat (refCount r) = count M (memPtr r)"
    using ok by (simp add: counts_ok_def)
  show "size M < 2 ^ 32" using ok by (simp add: counts_ok_def)
qed

lemma counts_ok_register:
  assumes ok: "counts_ok rc M" and sz: "Suc (size M) < 2 ^ 32"
  shows "counts_ok (if findPtrInfo t rc = length rc then rc @ [PtrDetails_ctor t n]
                    else rc[findPtrInfo t rc := upRefCount (rc ! findPtrInfo t rc)])
                   (add_mset t M)"
proof (cases "findPtrInfo t rc = length rc")
  case True
  then have "t \<notin> memPtr ` set rc" by (simp add: findPtrInfo_end_iff)
  from counts_ok_absent [OF ok this sz] True show ?thesis by simp
next
  case False
  then have "t \<in> memPtr ` set rc" by (simp add: findPtrInfo_end_iff)
  from counts_ok_found [OF ok this sz] False show ?thesis by simp
qed

lemma mset_addr_snoc: "mset (map addr (hs @ [h])) = add_mset (addr h) (mset (map addr hs))"
  by simp

lemma mset_addr_remove:
  assumes "i < length hs"
  shows "mset (map addr (take i hs @ drop (Suc i) hs)) = mset (map addr hs) - {#addr (hs ! i)#}"
proof -
  have "hs = take i hs @ hs ! i # drop (Suc i) hs" using assms by (rule id_take_nth_drop)
  then have "mset (map addr hs) = mset (map addr (take i hs @ hs ! i # drop (Suc i) hs))"
    by simp
  also have "\<dots> = add_mset (addr (hs ! i)) (mset (map addr (take i hs @ drop (Suc i) hs)))"
    by simp
  finally show ?thesis by simp
qed

lemma mset_addr_update:
  assumes "i < length hs"
  shows "mset (map addr (hs[i := h])) = add_mset (addr h) (mset (map addr hs) - {#addr (hs ! i)#})"
proof -
  have "mset ((map addr hs)[i := addr h]) =
      add_mset (addr h) (mset (map addr hs) - {#map addr hs ! i#})"
    by (rule mset_update) (simp add: assms)
  then show ?thesis using assms by (simp add: map_update del: mset_map)
qed

lemma holder_in_mset: "i < length hs \<Longrightarrow> addr (hs ! i) \<in># mset (map addr hs)"
  by (simp del: mset_map)

lemma holder_found:
  assumes "counts_ok rc M" "a \<in># M"
  shows "findPtrInfo a rc \<noteq> length rc"
  using assms by (simp add: counts_ok_def findPtrInfo_end_iff)

lemma exec_Construct:
  assumes ok: "consistent \<sigma>" and sz: "Suc (length (live \<sigma>)) < 2 ^ 32"
    and ex: "exec n (Construct t) \<sigma> = Inr \<sigma>'"
  shows "consistent \<sigma>'"
proof -
  let ?rc = "refContainer (gc \<sigma>)"
  let ?M = "mset (map addr (live \<sigma>))"
  have ok': "counts_ok ?rc ?M" using ok by (simp add: consistent_def)
  have sz': "Suc (size ?M) < 2 ^ 32" using sz by simp
  have rc': "refContainer (gc \<sigma>') =
      (if findPtrInfo t ?rc = length ?rc then ?rc @ [PtrDetails_ctor t n]
       else ?rc[findPtrInfo t ?rc := upRefCount (?rc ! findPtrInfo t ?rc)])"
    using ex by (auto simp: Pointer_ctor_eq)
  have lv: "mset (map addr (live \<sigma>')) = add_mset t ?M"
    using ex by (auto simp: Pointer_ctor_eq)
  show ?thesis
    unfolding consistent_def rc' lv by (rule counts_ok_register [OF ok' sz'])
qed

lemma exec_CopyConstruct:
  assumes ok: "consistent \<sigma>" and sz: "Suc (length (live \<sigma>)) < 2 ^ 32"
    and ex: "exec n (CopyConstruct i) \<sigma> = Inr \<sigma>'"
  shows "consistent \<sigma>'"
proof -
  let ?rc = "refContainer (gc \<sigma>)"
  let ?M = "mset (map addr (live \<sigma>))"
  let ?t = "addr (live \<sigma> ! i)"
  have ok': "counts_ok ?rc ?M" using ok by (simp add: consistent_def)
  have sz': "Suc (size ?M) < 2 ^ 32" using sz by simp
  have i: "i < length (live \<sigma>)" using ex by (simp split: if_splits)
  have found: "findPtrInfo ?t ?rc \<noteq> length ?rc"
    by (rule holder_found [OF ok' holder_in_mset [OF i]])
  have rc': "refContainer (gc \<sigma>') =
      (if findPtrInfo ?t ?rc = length ?rc then ?rc @ [PtrDetails_ctor ?t n]
       else ?rc[findPtrInfo ?t ?rc := upRefCount (?rc ! findPtrInfo ?t ?rc)])"
    using ex i found by (auto simp: Pointer_copy_found)
  have lv: "mset (map addr (live \<sigma>')) = add_mset ?t ?M"
    using ex i found by (auto simp: Pointer_copy_found)
  show ?thesis
    unfolding consistent_def rc' lv by (rule counts_ok_register [OF ok' sz'])
qed

lemma exec_Destruct:
  assumes ok: "consistent \<sigma>" and ex: "exec n (Destruct i) \<sigma> = Inr \<sigma>'"
  shows "consistent \<sigma>'"
proof -
  let ?rc = "refContainer (gc \<sigma>)"
  let ?M = "mset (map addr (live \<sigma>))"
  let ?t = "addr (live \<sigma> ! i)"
  have ok': "counts_ok ?rc ?M" using ok by (simp add: consistent_def)
  have i: "i < length (live \<sigma>)" using ex by (simp split: if_splits)
  have found: "findPtrInfo ?t ?rc \<noteq> length ?rc"
    by (rule holder_found [OF ok' holder_in_mset [OF i]])
  have rc': "refContainer (gc \<sigma>') = filter (\<lambda>p. refCount p \<noteq> 0)
      (?rc[findPtrInfo ?t ?rc := downRefCount (?rc ! findPtrInfo ?t ?rc)])"
    using ex i found by (auto simp: Pointer_dtor_found collect_eq)
  have "live \<sigma>' = take i (live \<sigma>) @ drop (Suc i) (live \<sigma>)"
    using ex i found by (auto simp: Pointer_dtor_found)
  then have lv: "mset (map addr (live \<sigma>')) = ?M - {#?t#}"
    using mset_addr_remove [OF i] by simp
  show ?thesis
    unfolding consistent_def rc' lv
    by (rule counts_ok_sweep [OF counts_ok_release [OF ok' holder_in_mset [OF i]]])
qed

lemma exec_Collect:
  assumes ok: "consistent \<sigma>" and ex: "exec n Collect \<sigma> = Inr \<sigma>'"
  shows "consistent \<sigma>'"
proof -
  have "refContainer (gc \<sigma>') = filter (\<lambda>p. refCount p \<noteq> 0) (refContainer (gc \<sigma>))"
    and "live \<sigma>' = live \<sigma>"
    using ex by (auto simp: collect_eq)
  then show ?thesis
    using counts_ok_sweep [of "refContainer (gc \<sigma>)" "mset (map addr (live \<sigma>))"] ok
    by (simp add: consistent_def)
qed

lemma exec_AssignRaw:
  assumes ok: "consistent \<sigma>" and sz: "length (live \<sigma>) < 2 ^ 32"
    and ex: "exec n (AssignRaw i t) \<sigma> = Inr \<sigma>'"
  shows "consistent \<sigma>'"
proof -
  let ?rc = "refContainer (gc \<sigma>)"
  let ?M = "mset (map addr (live \<sigma>))"
  let ?A = "addr (live \<sigma> ! i)"
  let ?rc1 = "?rc[findPtrInfo ?A ?rc := downRefCount (?rc ! findPtrInfo ?A ?rc)]"
  have ok': "counts_ok ?rc ?M" using ok by (simp add: consistent_def)
  have i: "i < length (live \<sigma>)" using ex by (simp split: if_splits)
  have A: "?A \<in># ?M" by (rule holder_in_mset [OF i])
  have found: "findPtrInfo ?A ?rc \<noteq> length ?rc" by (rule holder_found [OF ok' A])
  have ok1: "counts_ok ?rc1 (?M - {#?A#})" by (rule counts_ok_release [OF ok' A])
  have "Suc (size (?M - {#?A#})) = size ?M" using A by (rule size_Suc_Diff1)
  then have sz1: "Suc (size (?M - {#?A#})) < 2 ^ 32" using sz by simp
  have rc': "refContainer (gc \<sigma>') =
      (if findPtrInfo t ?rc1 = length ?rc1 then ?rc1 @ [PtrDetails_ctor t n]
       else ?rc1[findPtrInfo t ?rc1 := upRefCount (?rc1 ! findPtrInfo t ?rc1)])"
    using ex i found by (auto simp: assign_raw_def Let_def)
  have "live \<sigma>' = (live \<sigma>)[i := \<lparr>addr = t, isArrayP = (0 <s n), arraySizeP = n\<rparr>]"
    using ex i by (auto simp: assign_raw_def Let_def)
  then have lv: "mset (map addr (live \<sigma>')) = add_mset t (?M - {#?A#})"
    using mset_addr_update [OF i, of "\<lparr>addr = t, isArrayP = (0 <s n), arraySizeP = n\<rparr>"]
    by simp
  show ?thesis
    unfolding consistent_def rc' lv by (rule counts_ok_register [OF ok1 sz1])
qed

lemma exec_AssignHandle:
  assumes ok: "consistent \<sigma>" and sz: "length (live \<sigma>) < 2 ^ 32"
    and ex: "exec n (AssignHandle i j) \<sigma> = Inr \<sigma>'"
  shows "consistent \<sigma>'"
proof -
  let ?rc = "refContainer (gc \<sigma>)"
  let ?M = "mset (map addr (live \<sigma>))"
  let ?A = "addr (live \<sigma> ! i)"
  let ?B = "addr (live \<sigma> ! j)"
  let ?rc1 = "?rc[findPtrInfo ?A ?rc := downRefCount (?rc ! findPtrInfo ?A ?rc)]"
  have ok': "counts_ok ?rc ?M" using ok by (simp add: consistent_def)
  have i: "i < length (live \<sigma>)" and j: "j < length (live \<sigma>)"
    using ex by (simp_all split: if_splits)
  show ?thesis
  proof (cases "?A = ?B")
    case True
    have "assign_handle (live \<sigma> ! i) (live \<sigma> ! j) (gc \<sigma>) = Inr (gc \<sigma>, live \<sigma> ! i)"
      by (rule assign_handle_same_addr [OF True])
    then have "\<sigma>' = \<sigma>" using ex i j by (auto simp: list_update_id)
    then show ?thesis using ok by simp
  next
    case False
    have A: "?A \<in># ?M" by (rule holder_in_mset [OF i])
    have B: "?B \<in># ?M" by (rule holder_in_mset [OF j])
    have fa: "findPtrInfo ?A ?rc \<noteq> length ?rc" by (rule holder_found [OF ok' A])
    have fb: "findPtrInfo ?B ?rc \<noteq> length ?rc" by (rule holder_found [OF ok' B])
    have ok1: "counts_ok ?rc1 (?M - {#?A#})" by (rule counts_ok_release [OF ok' A])
    have "Suc (size (?M - {#?A#})) = size ?M" using A by (rule size_Suc_Diff1)
    then have sz1: "Suc (size (?M - {#?A#})) < 2 ^ 32" using sz by simp
    have f: "findPtrInfo ?B ?rc1 = findPtrInfo ?B ?rc" by (rule findPtrInfo_update) simp
    have fb1: "findPtrInfo ?B ?rc1 \<noteq> length ?rc1" using fb f by simp
    have ah: "assign_handle (live \<sigma> ! i) (live \<sigma> ! j) (gc \<sigma>) =
        Inr (gc \<sigma>\<lparr>refContainer := ?rc1[findPtrInfo ?B ?rc := upRefCount (?rc1 ! findPtrInfo ?B ?rc)]\<rparr>,
             live \<sigma> ! j)"
      by (rule assign_handle_found [OF False fa fb])
    have rc': "refContainer (gc \<sigma>') =
      (if findPtrInfo ?B ?rc1 = length ?rc1 then ?rc1 @ [PtrDetails_ctor ?B n]
       else ?rc1[findPtrInfo ?B ?rc1 := upRefCount (?rc1 ! findPtrInfo ?B ?rc1)])"
      using ex i j ah fb1 f by auto
    have "live \<sigma>' = (live \<sigma>)[i := live \<sigma> ! j]" using ex i j ah by auto
    then have lv: "mset (map addr (live \<sigma>')) = add_mset ?B (?M - {#?A#})"
      using mset_addr_update [OF i, of "live \<sigma> ! j"] by simp
    show ?thesis
      unfolding consistent_def rc' lv by (rule counts_ok_register [OF ok1 sz1])
  qed
qed

lemma exec_lifecycle:
  assumes ok: "consistent \<sigma>" and sz: "Suc (length (live \<sigma>)) < 2 ^ 32"
    and op: "lifecycle_op x" and ex: "exec n x \<sigma> = Inr \<sigma>'"
  shows "consistent \<sigma>'"
proof (cases x)
  case (Construct t)
  with ok sz ex show ?thesis using exec_Construct by blast
next
  case (CopyConstruct i)
  with ok sz ex show ?thesis using exec_CopyConstruct by blast
next
  case (Destruct i)
  with ok ex show ?thesis using exec_Destruct by blast
next
  case (AssignRaw i t)
  moreover have "length (live \<sigma>) < 2 ^ 32" using sz by simp
  ultimately show ?thesis using ok ex exec_AssignRaw by blast
next
  case (AssignHandle i j)
  moreover have "length (live \<sigma>) < 2 ^ 32" using sz by simp
  ultimately show ?thesis using ok ex exec_AssignHandle by blast
next
  case Collect
  with ok ex show ?thesis using exec_Collect by blast
next
  case (DefaultConstruct this)
  with op show ?thesis by simp
next
  case Shutdown
  with op show ?thesis by simp
qed

lemma exec_live_length:
  "exec n x \<sigma> = Inr \<sigma>' \<Longrightarrow> length (live \<sigma>') \<le> Suc (length (live \<sigma>))"
  by (cases x) (auto split: if_splits sum.splits prod.splits)

lemma run_lifecycle:
  "consistent \<sigma> \<Longrightarrow> length (live \<sigma>) + length xs < 2 ^ 32 \<Longrightarrow> list_all lifecycle_op xs \<Longrightarrow>
   run n xs \<sigma> = Inr \<sigma>' \<Longrightarrow> consistent \<sigma>'"
proof (induction xs arbitrary: \<sigma>)
  case Nil
  then show ?case by simp
next
  case (Cons x xs)
  from Cons.prems(4) obtain \<sigma>1 where e: "exec n x \<sigma> = Inr \<sigma>1" and r: "run n xs \<sigma>1 = Inr \<sigma>'"
    by (auto split: sum.splits)
  have "Suc (length (live \<sigma>)) < 2 ^ 32" using Cons.prems(2) by simp
  with Cons.prems(1,3) e have c1: "consistent \<sigma>1" using exec_lifecycle by auto
  have "length (live \<sigma>1) \<le> Suc (length (live \<sigma>))" using e by (rule exec_live_length)
  then have "length (live \<sigma>1) + length xs < 2 ^ 32" using Cons.prems(2) by simp
  with Cons.IH [OF c1 _ _ r] Cons.prems(3) show ?case by simp
qed

lemma consistent_init: "consistent init_sys"
  by (simp add: consistent_def counts_ok_def init_sys_def init_state_def)

lemma exec_no_end_deref:
  assumes ok: "consistent \<sigma>" and op: "lifecycle_op x"
  shows "exec n x \<sigma> \<noteq> Inl EndIteratorDeref"
proof -
  let ?rc = "refContainer (gc \<sigma>)"
  have ok': "counts_ok ?rc (mset (map addr (live \<sigma>)))" using ok by (simp add: consistent_def)
  have found: "findPtrInfo (addr (live \<sigma> ! i)) ?rc \<noteq> length ?rc" if "i < length (live \<sigma>)" for i
    by (rule holder_found [OF ok' holder_in_mset [OF that]])
  show ?thesis
  proof (cases x)
    case (Construct t)
    then show ?thesis by (simp split: prod.splits)
  next
    case (CopyConstruct i)
    then show ?thesis using found [of i] by (simp add: Pointer_copy_found)
  next
    case (Destruct i)
    then show ?thesis using found [of i] by (simp add: Pointer_dtor_found)
  next
    case (AssignRaw i t)
    then show ?thesis by (simp split: prod.splits)
  next
    case (AssignHandle i j)
    show ?thesis
    proof (cases "i < length (live \<sigma>) \<and> j < length (live \<sigma>)")
      case False
      with AssignHandle show ?thesis by auto
    next
      case True
      show ?thesis
      proof (cases "addr (live \<sigma> ! i) = addr (live \<sigma> ! j)")
        case same: True
        with True AssignHandle show ?thesis by (simp add: assign_handle_same_addr)
      next
        case diff: False
        from True have "findPtrInfo (addr (live \<sigma> ! i)) ?rc \<noteq> length ?rc"
          and "findPtrInfo (addr (live \<sigma> ! j)) ?rc \<noteq> length ?rc"
          using found by simp_all
        from assign_handle_found [OF diff this] True AssignHandle show ?thesis by simp
      qed
    qed
  next
    case Collect
    then show ?thesis by simp
  next
    case (DefaultConstruct this)
    with op show ?thesis by simp
  next
    case Shutdown
    with op show ?thesis by simp
  qed
qed

lemma run_no_end_deref:
  "consistent \<sigma> \<Longrightarrow> length (live \<sigma>) + length xs < 2 ^ 32 \<Longrightarrow> list_all lifecycle_op xs \<Longrightarrow>
   run n xs \<sigma> \<noteq> Inl EndIteratorDeref"
proof (induction xs arbitrary: \<sigma>)
  case Nil
  then show ?case by simp
next
  case (Cons x xs)
  have nd: "exec n x \<sigma> \<noteq> Inl EndIteratorDeref"
    using Cons.prems(1,3) exec_no_end_deref by simp
  show ?case
  proof (cases "exec n x \<sigma>")
    case (Inl e)
    with nd show ?thesis by auto
  next
    case (Inr \<sigma>1)
    have "Suc (length (live \<sigma>)) < 2 ^ 32" using Cons.prems(2) by simp
    with Cons.prems(1,3) Inr have c1: "consistent \<sigma>1" using exec_lifecycle by auto
    have "length (live \<sigma>1) \<le> Suc (length (live \<sigma>))" using Inr by (rule exec_live_length)
    then have "length (live \<sigma>1) + length xs < 2 ^ 32" using Cons.prems(2) by simp
    with Cons.IH [OF c1] Cons.prems(3) Inr show ?thesis by simp
  qed
qed

text \<open>
  C1. Take a program of constructions over an address, copy constructions, destructions,
  assignments of a raw address, assignments of a handle and sweeps, of fewer than
  \<open>2 ^ 32\<close> operations (so that no count can wrap around), run from the initial
  state. It never dereferences the end iterator, and when it has run to its end the
  count of every record in the list is the number of live handles that hold the record's
  address. This holds after the assignments too, which do not sweep: a record they leave
  with count zero is held by no live handle.
\<close>

theorem refcount_counts_live_handles:
  assumes "list_all lifecycle_op xs" and "length xs < 2 ^ 32"
  shows "run n xs init_sys \<noteq> Inl EndIteratorDeref \<and>
         (\<forall>\<sigma>. run n xs init_sys = Inr \<sigma> \<longrightarrow>
            (\<forall>r \<in> set (refContainer (gc \<sigma>)).
               unat (refCount r) = holders (memPtr r) (live \<sigma>)))"
proof -
  have len: "length (live init_sys) + length xs < 2 ^ 32"
    using assms(2) by (simp add: init_sys_def)
  have "consistent \<sigma>" if "run n xs init_sys = Inr \<sigma>" for \<sigma>
    using consistent_init len assms(1) that by (rule run_lifecycle)
  then have "\<forall>\<sigma>. run n xs init_sys = Inr \<sigma> \<longrightarrow>
      (\<forall>r \<in> set (refContainer (gc \<sigma>)). unat (refCount r) = holders (memPtr r) (live \<sigma>))"
    by (simp add: consistent_def counts_ok_def holders_def count_mset del: mset_map)
  moreover have "run n xs init_sys \<noteq> Inl EndIteratorDeref"
    using consistent_init len assms(1) by (rule run_no_end_deref)
  ultimately show ?thesis by simp
qed

theorem refcount_counts_live_handles_witness:
  "list_all lifecycle_op [Construct 4, CopyConstruct 0, AssignRaw 1 8, Destruct 0] \<and>
   length [Construct 4, CopyConstruct 0, AssignRaw 1 8, Destruct 0] < (2::nat) ^ 32 \<and>
   run 0 [Construct 4, CopyConstruct 0, AssignRaw 1 8, Destruct 0] init_sys =
     Inr \<lparr>gc = \<lparr>refContainer = [\<lparr>refCount = 1, memPtr = 8, isArray = False, arraySize = 0\<rparr>],
                first = False, atexit_calls = 1, freed = [DeleteScalar 4]\<rparr>,
          live = [\<lparr>addr = 8, isArrayP = False, arraySizeP = 0\<rparr>]\<rparr> \<and>
   unat (refCount \<lparr>refCount = 1, memPtr = 8, isArray = False, arraySize = 0\<rparr>) =
     holders 8 [\<lparr>addr = 8, isArrayP = False, arraySizeP = 0\<rparr>]"
proof -
  let ?xs = "[Construct 4, CopyConstruct 0, AssignRaw 1 8, Destruct 0]"
  have h1: "list_all lifecycle_op ?xs" by simp
  have h2: "length ?xs < 2 ^ 32" by simp
  have r: "run 0 ?xs init_sys =
     Inr \<lparr>gc = \<lparr>refContainer = [\<lparr>refCount = 1, memPtr = 8, isArray = False, arraySize = 0\<rparr>],
                first = False, atexit_calls = 1, freed = [DeleteScalar 4]\<rparr>,
          live = [\<lparr>addr = 8, isArrayP = False, arraySizeP = 0\<rparr>]\<rparr>"
    by (simp add: init_sys_def init_state_def Pointer_ctor_def Pointer_copy_def assign_raw_def
        Pointer_dtor_def collect_def PtrDetails_ctor_def upRefCount_def downRefCount_def
        zeroRefCount_def Let_def)
  from refcount_counts_live_handles [OF h1 h2, of 0]
  have "\<forall>\<sigma>. run 0 ?xs init_sys = Inr \<sigma> \<longrightarrow>
      (\<forall>r \<in> set (refContainer (gc \<sigma>)). unat (refCount r) = holders (memPtr r) (live \<sigma>))"
    by (rule conjunct2)
  with r have "\<forall>r \<in> set (refContainer (gc \<lparr>gc = \<lparr>refContainer = [\<lparr>refCount = 1, memPtr = 8, isArray = False, arraySize = 0\<rparr>],
                first = False, atexit_calls = 1, freed = [DeleteScalar 4]\<rparr>,
          live = [\<lparr>addr = 8, isArrayP = False, arraySizeP = 0\<rparr>]\<rparr>)).
      unat (refCount r) = holders (memPtr r) [\<lparr>addr = 8, isArrayP = False, arraySizeP = 0\<rparr>]"
    by fastforce
  then have c: "unat (refCount \<lparr>refCount = 1, memPtr = 8, isArray = False, arraySize = 0\<rparr>) =
     holders 8 [\<lparr>addr = 8, isArrayP = False, arraySizeP = 0\<rparr>]"
    by simp
  show ?thesis by (intro conjI h1 h2 r c)
qed

end
